theory Spec2Isabelle
  imports Main
begin

section \<open>The circuit core of torpy: data model\<close>

text \<open>
  The embedding follows \<^verbatim>\<open>src/torpy/circuit.py\<close>. Mutation is explicit state passing:
  every operation takes the circuit and returns the circuit it leaves behind, together
  with either the value it returns or the exception it raises (\<open>Inl\<close>). The state is
  returned on the exceptional path as well, because Python keeps every mutation made
  before a raise.
\<close>

type_synonym bytes = "nat list"

datatype error =
    CellTimeoutError string
  | CircuitExtendError string
  | AssertionError string
  | Exception string
  | NotImplementedError string
  | AttributeError string
  | TypeError string
  | ValueError string

datatype level = Debug | Info | Warning | Error

datatype TorHandshakeType = TAP | FAST | NTOR

datatype TorCircuitState = Unknown | Connected | Destroyed

record OnionRouter =
  nickname :: string
  ip :: string
  tor_port :: nat
  fingerprint :: bytes

text \<open>
  The cell classes that \<^verbatim>\<open>circuit.py\<close> imports from \<^verbatim>\<open>torpy.cells\<close>. The handler
  registry is keyed by the class of a cell, so the class is a tag of its own.
\<close>

datatype cell_type =
    CellCreate2
  | CellCreated2
  | CellDestroy
  | CellRelayTruncated
  | CellRelayEnd
  | CellRelayData
  | CellRelaySendMe
  | CellRelayConnected
  | CellRelayExtend2
  | CellRelayExtended2
  | CellRelayEstablishRendezvous
  | CellRelayRendezvousEstablished
  | CellRelayIntroduce1
  | CellRelayIntroduceAck

datatype attrs =
    NoAttrs
  | Reason string
  | HandshakeData bytes
  | Payload bytes
  | Create2Attrs TorHandshakeType bytes
  | Extend2Attrs string nat bytes bytes
  | RendezvousCookie bytes

text \<open>
  Modelled from the spec: the cell classes of \<^verbatim>\<open>torpy.cells\<close> are not part of the source
  at hand. A cell is its class, its \<^verbatim>\<open>circuit_id\<close> and the attributes that
  \<^verbatim>\<open>circuit.py\<close> reads from it (\<^verbatim>\<open>reason\<close>, \<^verbatim>\<open>handshake_data\<close>). Reading an attribute
  a cell does not have is an \<^verbatim>\<open>AttributeError\<close> in Python, hence the options.
\<close>

datatype cell = Cell (type_of: cell_type) (cell_circuit_id: nat) (attrs: attrs)

definition reason :: "cell \<Rightarrow> string option" where
  "reason c = (case attrs c of Reason r \<Rightarrow> Some r | _ \<Rightarrow> None)"

definition handshake_data :: "cell \<Rightarrow> bytes option" where
  "handshake_data c = (case attrs c of HandshakeData d \<Rightarrow> Some d | _ \<Rightarrow> None)"

datatype relay_kind = CellRelay | CellRelayEarly

text \<open>
  Modelled from the spec: \<^verbatim>\<open>RelayedTorCell\<close> is not part of the source at hand; the spec
  says it carries \<^verbatim>\<open>is_encrypted\<close>, \<^verbatim>\<open>stream_id\<close>, \<^verbatim>\<open>circuit_id\<close> and a mutable
  payload buffer. \<^verbatim>\<open>inner_cell\<close> is the cell it was built from.
\<close>

record RelayedTorCell =
  relay_type :: relay_kind
  inner_cell :: "cell option"
  stream_id :: nat
  circuit_id :: nat
  is_encrypted :: bool
  payload :: bytes

definition new_relay_cell :: "relay_kind \<Rightarrow> cell \<Rightarrow> nat \<Rightarrow> nat \<Rightarrow> RelayedTorCell" where
  "new_relay_cell rt inner sid cid =
     \<lparr>relay_type = rt, inner_cell = Some inner, stream_id = sid, circuit_id = cid,
      is_encrypted = False, payload = []\<rparr>"

datatype wire = Plain cell | Relayed RelayedTorCell

text \<open>
  Modelled from the spec: \<^verbatim>\<open>TorWindow\<close> lives in \<^verbatim>\<open>torpy.stream\<close>, which is not part of
  the source at hand. The spec gives two counters, \<^verbatim>\<open>package\<close> and \<^verbatim>\<open>deliver\<close>, both
  starting at 1000, decremented by 1 per data cell and replenished in increments of 100;
  a SENDME is due when the deliver window has come down to the 900 threshold, and the
  deliver window reads 999 after the 101st data cell, so answering with a SENDME puts the
  increment back.
\<close>

record TorWindow =
  package :: int
  deliver :: int

definition window_start :: int where "window_start = 1000"
definition window_increment :: int where "window_increment = 100"

definition TorWindow_init :: TorWindow where
  "TorWindow_init = \<lparr>package = window_start, deliver = window_start\<rparr>"

definition package_inc :: "TorWindow \<Rightarrow> TorWindow" where
  "package_inc w = w\<lparr>package := package w + window_increment\<rparr>"

definition deliver_dec :: "TorWindow \<Rightarrow> TorWindow" where
  "deliver_dec w = w\<lparr>deliver := deliver w - 1\<rparr>"

definition need_sendme :: "TorWindow \<Rightarrow> bool \<times> TorWindow" where
  "need_sendme w =
     (if deliver w > window_start - window_increment then (False, w)
      else (True, w\<lparr>deliver := deliver w + window_increment\<rparr>))"

record ('ka, 'k) CircuitNode =
  router :: OnionRouter
  handshake_type :: TorHandshakeType
  key_agreement :: "'ka option"
  crypto_state :: "'k option"
  window :: TorWindow

text \<open>
  The collaborators whose code is outside \<^verbatim>\<open>circuit.py\<close> are parameters of the model:
  the two key agreements (\<^verbatim>\<open>NtorKeyAgreement\<close>, \<^verbatim>\<open>TapKeyAgreement\<close>), the symmetric
  \<^verbatim>\<open>CryptoState\<close> and \<^verbatim>\<open>RelayedTorCell.get_decrypted\<close>. Nothing is assumed about them;
  \<open>'ka\<close> is the type of a key agreement object and \<open>'k\<close> the type of a crypto state.
\<close>

record ('ka, 'k) ext =
  ntor_key_agreement :: "OnionRouter \<Rightarrow> 'ka"
  tap_key_agreement :: "OnionRouter \<Rightarrow> 'ka"
  ka_handshake :: "'ka \<Rightarrow> bytes"
  ka_complete_handshake :: "'ka \<Rightarrow> bytes \<Rightarrow> error + bytes"
  new_crypto_state :: "bytes \<Rightarrow> 'k"
  cs_encrypt_forward :: "'k \<Rightarrow> RelayedTorCell \<Rightarrow> 'k \<times> RelayedTorCell"
  cs_decrypt_backward :: "'k \<Rightarrow> RelayedTorCell \<Rightarrow> 'k \<times> RelayedTorCell"
  get_decrypted :: "RelayedTorCell \<Rightarrow> error + cell"

datatype cell_types = One cell_type | Many "cell_type list"

record Waiter =
  cell_types :: cell_types
  ev :: bool
  read_cell :: "cell option"
  err_msg :: "string option"

text \<open>
  The callables subscribed on a circuit's handler manager are the three bound methods
  that \<^verbatim>\<open>create\<close> registers. A waiter is an object shared between the registry lists
  and the thread that waits on it, so the registry holds a reference to it.
\<close>

datatype callback = on_truncated_cb | on_stream_end_cb | on_stream_cb

datatype handler = WaiterRef nat | Callback callback

record HiddenService =
  onion :: string
  hostname :: string
  rendezvous_cookie :: bytes

text \<open>
  The circuit. \<open>handlers\<close>, \<open>waiters\<close> and \<open>next_waiter\<close> are its \<^verbatim>\<open>CellHandlerManager\<close>
  and the waiter objects created so far (\<open>next_waiter\<close> is the next fresh reference);
  \<open>stream_map\<close> is its \<^verbatim>\<open>StreamsManager\<close>, each stream with the cells handed to it;
  \<open>sent\<close> is what went to the sender and \<open>logged\<close> what went to the logger at warning
  level or above, plus the debug lines of \<^verbatim>\<open>destroy\<close> and \<^verbatim>\<open>extend_to_hidden\<close>.
\<close>

record ('ka, 'k) TorCircuit =
  c_id :: nat
  c_router :: OnionRouter
  handlers :: "cell_type \<rightharpoonup> handler list"
  waiters :: "nat \<Rightarrow> Waiter"
  next_waiter :: nat
  stream_map :: "(nat \<times> cell list) list"
  circuit_nodes :: "('ka, 'k) CircuitNode list option"
  state :: TorCircuitState
  guard :: "nat option"
  associated_hs :: "HiddenService option"
  sent :: "wire list"
  logged :: "(level \<times> string) list"

definition logmsg :: "level \<Rightarrow> string \<Rightarrow> ('ka, 'k) TorCircuit \<Rightarrow> ('ka, 'k) TorCircuit" where
  "logmsg l m c = c\<lparr>logged := logged c @ [(l, m)]\<rparr>"

section \<open>CircuitNode\<close>

definition CircuitNode_init :: "OnionRouter \<Rightarrow> TorHandshakeType \<Rightarrow> ('ka, 'k) CircuitNode" where
  "CircuitNode_init r ht =
     \<lparr>router = r, handshake_type = ht, key_agreement = None, crypto_state = None,
      window = TorWindow_init\<rparr>"

definition get_key_agreement ::
  "('ka, 'k) ext \<Rightarrow> OnionRouter \<Rightarrow> TorHandshakeType \<Rightarrow> error + 'ka" where
  "get_key_agreement x r ht =
     (if ht = NTOR then Inr (ntor_key_agreement x r)
      else if ht = TAP then Inr (tap_key_agreement x r)
      else Inl (NotImplementedError ''Unknown key agreement''))"

text \<open>The \<^verbatim>\<open>key_agreement\<close> property: created on first use and kept on the node.\<close>

definition key_agreement_of ::
  "('ka, 'k) ext \<Rightarrow> ('ka, 'k) CircuitNode \<Rightarrow> error + ('ka \<times> ('ka, 'k) CircuitNode)" where
  "key_agreement_of x n =
     (case key_agreement n of
        Some ka \<Rightarrow> Inr (ka, n)
      | None \<Rightarrow>
          (case get_key_agreement x (router n) (handshake_type n) of
             Inl e \<Rightarrow> Inl e
           | Inr ka \<Rightarrow> Inr (ka, n\<lparr>key_agreement := Some ka\<rparr>)))"

definition create_onion_skin ::
  "('ka, 'k) ext \<Rightarrow> ('ka, 'k) CircuitNode \<Rightarrow> error + (bytes \<times> ('ka, 'k) CircuitNode)" where
  "create_onion_skin x n =
     (case key_agreement_of x n of
        Inl e \<Rightarrow> Inl e
      | Inr (ka, n') \<Rightarrow> Inr (ka_handshake x ka, n'))"

definition complete_handshake ::
  "('ka, 'k) ext \<Rightarrow> ('ka, 'k) CircuitNode \<Rightarrow> bytes \<Rightarrow> error + ('ka, 'k) CircuitNode" where
  "complete_handshake x n hdata =
     (case key_agreement_of x n of
        Inl e \<Rightarrow> Inl e
      | Inr (ka, n') \<Rightarrow>
          (case ka_complete_handshake x ka hdata of
             Inl e \<Rightarrow> Inl e
           | Inr shared_secret \<Rightarrow> Inr (n'\<lparr>crypto_state := Some (new_crypto_state x shared_secret)\<rparr>)))"

text \<open>
  \<^verbatim>\<open>self._crypto_state.encrypt_forward(relay_cell)\<close>: on a node whose handshake has not
  completed \<^verbatim>\<open>_crypto_state\<close> is \<^verbatim>\<open>None\<close> and the call raises.
\<close>

definition encrypt_forward ::
  "('ka, 'k) ext \<Rightarrow> ('ka, 'k) CircuitNode \<Rightarrow> RelayedTorCell
     \<Rightarrow> error + (('ka, 'k) CircuitNode \<times> RelayedTorCell)" where
  "encrypt_forward x n rc =
     (case crypto_state n of
        None \<Rightarrow> Inl (AttributeError ''encrypt_forward'')
      | Some k \<Rightarrow>
          (case cs_encrypt_forward x k rc of (k', rc') \<Rightarrow> Inr (n\<lparr>crypto_state := Some k'\<rparr>, rc')))"

definition decrypt_backward ::
  "('ka, 'k) ext \<Rightarrow> ('ka, 'k) CircuitNode \<Rightarrow> RelayedTorCell
     \<Rightarrow> error + (('ka, 'k) CircuitNode \<times> RelayedTorCell)" where
  "decrypt_backward x n rc =
     (case crypto_state n of
        None \<Rightarrow> Inl (AttributeError ''decrypt_backward'')
      | Some k \<Rightarrow>
          (case cs_decrypt_backward x k rc of (k', rc') \<Rightarrow> Inr (n\<lparr>crypto_state := Some k'\<rparr>, rc')))"

section \<open>Waiter\<close>

definition Waiter_init :: "cell_types \<Rightarrow> Waiter" where
  "Waiter_init ts = \<lparr>cell_types = ts, ev = False, read_cell = None, err_msg = None\<rparr>"

definition Waiter_handler :: "cell \<Rightarrow> Waiter \<Rightarrow> Waiter" where
  "Waiter_handler cl w = w\<lparr>read_cell := Some cl, ev := True\<rparr>"

fun cell_type_name :: "cell_type \<Rightarrow> string" where
  "cell_type_name CellCreate2 = ''CellCreate2''"
| "cell_type_name CellCreated2 = ''CellCreated2''"
| "cell_type_name CellDestroy = ''CellDestroy''"
| "cell_type_name CellRelayTruncated = ''CellRelayTruncated''"
| "cell_type_name CellRelayEnd = ''CellRelayEnd''"
| "cell_type_name CellRelayData = ''CellRelayData''"
| "cell_type_name CellRelaySendMe = ''CellRelaySendMe''"
| "cell_type_name CellRelayConnected = ''CellRelayConnected''"
| "cell_type_name CellRelayExtend2 = ''CellRelayExtend2''"
| "cell_type_name CellRelayExtended2 = ''CellRelayExtended2''"
| "cell_type_name CellRelayEstablishRendezvous = ''CellRelayEstablishRendezvous''"
| "cell_type_name CellRelayRendezvousEstablished = ''CellRelayRendezvousEstablished''"
| "cell_type_name CellRelayIntroduce1 = ''CellRelayIntroduce1''"
| "cell_type_name CellRelayIntroduceAck = ''CellRelayIntroduceAck''"

fun join_or :: "string list \<Rightarrow> string" where
  "join_or [] = []"
| "join_or [s] = s"
| "join_or (s # t # ss) = s @ '' or '' @ join_or (t # ss)"

fun cells_format :: "cell_types \<Rightarrow> string" where
  "cells_format (Many ts) = join_or (map cell_type_name ts)"
| "cells_format (One t) = cell_type_name t"

text \<open>
  \<^verbatim>\<open>Waiter.get\<close>, read at the moment the wait is over: the event not set is the timeout.
  \<^verbatim>\<open>if self._err_msg\<close> is Python truthiness, so an empty message does not raise.
\<close>

definition Waiter_get :: "Waiter \<Rightarrow> error + cell option" where
  "Waiter_get w =
     (if \<not> ev w then Inl (CellTimeoutError (''Timeout wait for '' @ cells_format (cell_types w)))
      else (case err_msg w of
              Some m \<Rightarrow> (if m \<noteq> [] then Inl (Exception m) else Inr (read_cell w))
            | None \<Rightarrow> Inr (read_cell w)))"

section \<open>CellHandlerManager: the registry\<close>

definition get_handlers :: "(cell_type \<rightharpoonup> handler list) \<Rightarrow> cell_type \<Rightarrow> handler list" where
  "get_handlers m t = (case m t of None \<Rightarrow> [] | Some hs \<Rightarrow> hs)"

definition subscribe_for_cell ::
  "cell_type \<Rightarrow> handler \<Rightarrow> (cell_type \<rightharpoonup> handler list) \<Rightarrow> (cell_type \<rightharpoonup> handler list)" where
  "subscribe_for_cell t h m = m(t \<mapsto> get_handlers m t @ [h])"

fun subscribe_for ::
  "cell_types \<Rightarrow> handler \<Rightarrow> (cell_type \<rightharpoonup> handler list) \<Rightarrow> (cell_type \<rightharpoonup> handler list)" where
  "subscribe_for (Many ts) h m = fold (\<lambda>t. subscribe_for_cell t h) ts m"
| "subscribe_for (One t) h m = subscribe_for_cell t h m"

text \<open>
  \<^verbatim>\<open>handlers = self._handlers.get(cell_type, [])\<close>: for a missing key the list is a fresh
  one and the registry stays as it is; \<^verbatim>\<open>list.remove\<close> takes out the first equal element.
\<close>

definition unsubscribe_for_cell ::
  "cell_type \<Rightarrow> handler \<Rightarrow> (cell_type \<rightharpoonup> handler list) \<Rightarrow> (cell_type \<rightharpoonup> handler list)" where
  "unsubscribe_for_cell t h m =
     (case m t of
        None \<Rightarrow> m
      | Some hs \<Rightarrow> (if h \<in> set hs then m(t \<mapsto> remove1 h hs) else m))"

fun unsubscribe_for ::
  "cell_types \<Rightarrow> handler \<Rightarrow> (cell_type \<rightharpoonup> handler list) \<Rightarrow> (cell_type \<rightharpoonup> handler list)" where
  "unsubscribe_for (Many ts) h m = fold (\<lambda>t. unsubscribe_for_cell t h) ts m"
| "unsubscribe_for (One t) h m = unsubscribe_for_cell t h m"

section \<open>Sending: onion encryption\<close>

definition send :: "wire \<Rightarrow> ('ka, 'k) TorCircuit \<Rightarrow> ('ka, 'k) TorCircuit" where
  "send w c = c\<lparr>sent := sent c @ [w]\<rparr>"

text \<open>
  The loop of \<^verbatim>\<open>_encrypt\<close> over the list it is given, front to back. A node that raises
  stops the loop; the nodes before it keep their advanced cipher state.
\<close>

fun encrypt_loop ::
  "('ka, 'k) ext \<Rightarrow> ('ka, 'k) CircuitNode list \<Rightarrow> RelayedTorCell
     \<Rightarrow> (error + unit) \<times> ('ka, 'k) CircuitNode list \<times> RelayedTorCell" where
  "encrypt_loop x [] rc = (Inr (), [], rc)"
| "encrypt_loop x (n # ns) rc =
     (case encrypt_forward x n rc of
        Inl e \<Rightarrow> (Inl e, n # ns, rc)
      | Inr (n', rc') \<Rightarrow>
          (case encrypt_loop x ns rc' of (r, ns', rc'') \<Rightarrow> (r, n' # ns', rc'')))"

text \<open>\<^verbatim>\<open>_encrypt\<close>: the loop runs over \<^verbatim>\<open>self._circuit_nodes[::-1]\<close>.\<close>

definition encrypt ::
  "('ka, 'k) ext \<Rightarrow> ('ka, 'k) CircuitNode list \<Rightarrow> RelayedTorCell
     \<Rightarrow> (error + unit) \<times> ('ka, 'k) CircuitNode list \<times> RelayedTorCell" where
  "encrypt x ns rc =
     (if is_encrypted rc then (Inl (AssertionError ''not relay_cell.is_encrypted''), ns, rc)
      else (case encrypt_loop x (rev ns) rc of (r, ns', rc') \<Rightarrow> (r, rev ns', rc')))"

text \<open>
  \<^verbatim>\<open>_send_relay\<close>. Before \<^verbatim>\<open>create\<close> has run \<^verbatim>\<open>_circuit_nodes\<close> is \<^verbatim>\<open>None\<close>, and slicing
  it raises.
\<close>

definition send_relay ::
  "('ka, 'k) ext \<Rightarrow> cell \<Rightarrow> relay_kind option \<Rightarrow> nat \<Rightarrow> ('ka, 'k) TorCircuit
     \<Rightarrow> (error + unit) \<times> ('ka, 'k) TorCircuit" where
  "send_relay x inner rt sid c =
     (let relay_cell = new_relay_cell (case rt of None \<Rightarrow> CellRelay | Some k \<Rightarrow> k) inner sid (c_id c)
      in case circuit_nodes c of
           None \<Rightarrow> (Inl (TypeError ''NoneType is not subscriptable''), c)
         | Some ns \<Rightarrow>
             (case encrypt x ns relay_cell of
                (Inl e, ns', rc') \<Rightarrow> (Inl e, c\<lparr>circuit_nodes := Some ns'\<rparr>)
              | (Inr u, ns', rc') \<Rightarrow> (Inr (), send (Relayed rc') (c\<lparr>circuit_nodes := Some ns'\<rparr>))))"

section \<open>Streams and teardown\<close>

text \<open>
  Modelled from the spec: \<^verbatim>\<open>StreamsManager\<close> and \<^verbatim>\<open>TorStream\<close> live in \<^verbatim>\<open>torpy.stream\<close>,
  which is not part of the source at hand. The spec gives \<^verbatim>\<open>by_id\<close>, a \<^verbatim>\<open>streams()\<close>
  enumerator, \<^verbatim>\<open>handle_cell\<close> on a stream, and \<^verbatim>\<open>close\<close>, where each close emits a
  \<^verbatim>\<open>RELAY_END\<close> through the stream's own path and the stream leaves the manager.
\<close>

definition get_by_id :: "(nat \<times> cell list) list \<Rightarrow> nat \<Rightarrow> cell list option" where
  "get_by_id sm sid = map_of sm sid"

definition stream_handle_cell ::
  "nat \<Rightarrow> cell \<Rightarrow> (nat \<times> cell list) list \<Rightarrow> (nat \<times> cell list) list" where
  "stream_handle_cell sid cl sm = map (\<lambda>(i, cs). if i = sid then (i, cs @ [cl]) else (i, cs)) sm"

definition close_stream ::
  "('ka, 'k) ext \<Rightarrow> nat \<Rightarrow> ('ka, 'k) TorCircuit \<Rightarrow> (error + unit) \<times> ('ka, 'k) TorCircuit" where
  "close_stream x sid c =
     (case send_relay x (Cell CellRelayEnd (c_id c) NoAttrs) None sid c of
        (Inl e, c1) \<Rightarrow> (Inl e, c1)
      | (Inr u, c1) \<Rightarrow> (Inr (), c1\<lparr>stream_map := filter (\<lambda>(i, cs). i \<noteq> sid) (stream_map c1)\<rparr>))"

text \<open>\<^verbatim>\<open>close_all_streams\<close>: the loop over the snapshot \<^verbatim>\<open>list(self._stream_manager.streams())\<close>.\<close>

fun close_streams ::
  "('ka, 'k) ext \<Rightarrow> nat list \<Rightarrow> ('ka, 'k) TorCircuit \<Rightarrow> (error + unit) \<times> ('ka, 'k) TorCircuit" where
  "close_streams x [] c = (Inr (), c)"
| "close_streams x (sid # sids) c =
     (case close_stream x sid c of
        (Inl e, c1) \<Rightarrow> (Inl e, c1)
      | (Inr u, c1) \<Rightarrow> close_streams x sids c1)"

definition close_all_streams ::
  "('ka, 'k) ext \<Rightarrow> ('ka, 'k) TorCircuit \<Rightarrow> (error + unit) \<times> ('ka, 'k) TorCircuit" where
  "close_all_streams x c = close_streams x (map fst (stream_map c)) c"

text \<open>
  \<^verbatim>\<open>destroy\<close>. The assignment \<^verbatim>\<open>self._state = Destroyed\<close> is reached from the first two
  branches; the third raises before it.
\<close>

definition destroy ::
  "('ka, 'k) ext \<Rightarrow> bool \<Rightarrow> ('ka, 'k) TorCircuit \<Rightarrow> (error + unit) \<times> ('ka, 'k) TorCircuit" where
  "destroy x send_destroy c =
     (if state c = Connected then
        (case close_all_streams x c of
           (Inl e, c1) \<Rightarrow> (Inl e, c1)
         | (Inr u, c1) \<Rightarrow>
             (Inr (), (if send_destroy then send (Plain (Cell CellDestroy (c_id c1) (Reason ''FINISHED''))) c1
                       else c1)\<lparr>state := Destroyed\<rparr>))
      else if state c = Destroyed then
        (Inr (), (logmsg Debug ''#%x circuit has been destroyed already'' c)\<lparr>state := Destroyed\<rparr>)
      else (Inl (Exception ''#{:x} circuit is not yet connected''), c))"

section \<open>Receiving: flow control and the stream handlers\<close>

text \<open>
  \<^verbatim>\<open>from_node\<close> is a reference to one of the node objects of \<^verbatim>\<open>_circuit_nodes\<close>; the
  model names it by its position in that list. A position outside the list names no
  object: Python cannot produce such a reference, and the model reports it as an error.
\<close>

definition node_at :: "('ka, 'k) TorCircuit \<Rightarrow> nat \<Rightarrow> ('ka, 'k) CircuitNode option" where
  "node_at c i =
     (case circuit_nodes c of
        None \<Rightarrow> None
      | Some ns \<Rightarrow> (if i < length ns then Some (ns ! i) else None))"

definition set_window :: "nat \<Rightarrow> TorWindow \<Rightarrow> ('ka, 'k) TorCircuit \<Rightarrow> ('ka, 'k) TorCircuit" where
  "set_window i w c =
     c\<lparr>circuit_nodes := map_option (\<lambda>ns. ns[i := (ns ! i)\<lparr>window := w\<rparr>]) (circuit_nodes c)\<rparr>"

definition sendme_process ::
  "('ka, 'k) ext \<Rightarrow> cell \<Rightarrow> nat \<Rightarrow> RelayedTorCell \<Rightarrow> ('ka, 'k) TorCircuit
     \<Rightarrow> (error + bool) \<times> ('ka, 'k) TorCircuit" where
  "sendme_process x cl from_node orig_cell c =
     (if type_of cl = CellRelaySendMe \<and> stream_id orig_cell = 0 then
        (case node_at c from_node of
           None \<Rightarrow> (Inl (AttributeError ''window''), c)
         | Some n \<Rightarrow> (Inr True, set_window from_node (package_inc (window n)) c))
      else if type_of cl = CellRelayData then
        (case node_at c from_node of
           None \<Rightarrow> (Inl (AttributeError ''window''), c)
         | Some n \<Rightarrow>
             (case need_sendme (deliver_dec (window n)) of
                (True, w) \<Rightarrow>
                  (case send_relay x (Cell CellRelaySendMe (cell_circuit_id cl) NoAttrs) None 0
                          (set_window from_node w c) of
                     (Inl e, c1) \<Rightarrow> (Inl e, c1)
                   | (Inr u, c1) \<Rightarrow> (Inr False, c1))
              | (False, w) \<Rightarrow> (Inr False, set_window from_node w c)))
      else (Inr False, c))"

definition on_stream ::
  "('ka, 'k) ext \<Rightarrow> cell \<Rightarrow> nat \<Rightarrow> RelayedTorCell \<Rightarrow> ('ka, 'k) TorCircuit
     \<Rightarrow> (error + unit) \<times> ('ka, 'k) TorCircuit" where
  "on_stream x cl from_node orig_cell c =
     (case sendme_process x cl from_node orig_cell c of
        (Inl e, c1) \<Rightarrow> (Inl e, c1)
      | (Inr True, c1) \<Rightarrow> (Inr (), c1)
      | (Inr False, c1) \<Rightarrow>
          (case get_by_id (stream_map c1) (stream_id orig_cell) of
             None \<Rightarrow> (Inr (), logmsg Warning ''Stream #%i is already closed or was never opened'' c1)
           | Some s \<Rightarrow>
               (Inr (), c1\<lparr>stream_map := stream_handle_cell (stream_id orig_cell) cl (stream_map c1)\<rparr>)))"

definition on_stream_end ::
  "('ka, 'k) ext \<Rightarrow> cell \<Rightarrow> nat \<Rightarrow> RelayedTorCell \<Rightarrow> ('ka, 'k) TorCircuit
     \<Rightarrow> (error + unit) \<times> ('ka, 'k) TorCircuit" where
  "on_stream_end x cl from_node orig_cell c =
     (case get_by_id (stream_map c) (stream_id orig_cell) of
        None \<Rightarrow> (Inr (), c)
      | Some s \<Rightarrow> close_stream x (stream_id orig_cell) c)"

text \<open>
  Modelled from the spec: \<^verbatim>\<open>TorGuard.destroy_circuit\<close> is not part of the source at hand.
  The spec has \<^verbatim>\<open>on_truncated\<close> ask the guard to tear down this circuit, and a remote
  teardown mark the circuit Destroyed: the guard runs the circuit's own teardown,
  \<^verbatim>\<open>destroy\<close> with its default argument.
\<close>

definition guard_destroy_circuit ::
  "('ka, 'k) ext \<Rightarrow> ('ka, 'k) TorCircuit \<Rightarrow> (error + unit) \<times> ('ka, 'k) TorCircuit" where
  "guard_destroy_circuit x c = destroy x True c"

definition on_truncated ::
  "('ka, 'k) ext \<Rightarrow> cell \<Rightarrow> nat \<Rightarrow> RelayedTorCell \<Rightarrow> ('ka, 'k) TorCircuit
     \<Rightarrow> (error + unit) \<times> ('ka, 'k) TorCircuit" where
  "on_truncated x cl from_node orig_cell c =
     (case reason cl of
        None \<Rightarrow> (Inl (AttributeError ''reason''), c)
      | Some r \<Rightarrow>
          (let c1 = logmsg Error ''Circuit #%x was truncated by remote (%s)'' c
           in case guard c1 of
                None \<Rightarrow> (Inl (AttributeError ''destroy_circuit''), c1)
              | Some g \<Rightarrow> guard_destroy_circuit x c1))"

section \<open>CellHandlerManager: dispatch\<close>

text \<open>
  A persistent handler is called with \<^verbatim>\<open>(cell, from_node, orig_cell)\<close> when both are
  given. The three bound methods take exactly these arguments, so the two shorter calls
  of \<^verbatim>\<open>handle\<close> raise \<^verbatim>\<open>TypeError\<close> on them.
\<close>

definition invoke ::
  "('ka, 'k) ext \<Rightarrow> callback \<Rightarrow> cell \<Rightarrow> nat option \<Rightarrow> RelayedTorCell option
     \<Rightarrow> ('ka, 'k) TorCircuit \<Rightarrow> (error + unit) \<times> ('ka, 'k) TorCircuit" where
  "invoke x cb cl from_node orig_cell c =
     (case from_node of
        None \<Rightarrow> (Inl (TypeError ''missing 2 required positional arguments''), c)
      | Some n \<Rightarrow>
          (case orig_cell of
             None \<Rightarrow> (Inl (TypeError ''missing 1 required positional argument''), c)
           | Some oc \<Rightarrow>
               (case cb of
                  on_truncated_cb \<Rightarrow> on_truncated x cl n oc c
                | on_stream_end_cb \<Rightarrow> on_stream_end x cl n oc c
                | on_stream_cb \<Rightarrow> on_stream x cl n oc c)))"

text \<open>
  The loop of \<^verbatim>\<open>handle\<close> runs over the copy \<^verbatim>\<open>handlers[:]\<close>, its argument here, while
  \<^verbatim>\<open>handlers.remove\<close> works on the registry's own list for the type of the cell.
  \<^verbatim>\<open>list.remove\<close> raises \<^verbatim>\<open>ValueError\<close> when the element is not there.
\<close>

fun handle_loop ::
  "('ka, 'k) ext \<Rightarrow> cell \<Rightarrow> nat option \<Rightarrow> RelayedTorCell option \<Rightarrow> handler list
     \<Rightarrow> ('ka, 'k) TorCircuit \<Rightarrow> (error + unit) \<times> ('ka, 'k) TorCircuit" where
  "handle_loop x cl from_node orig_cell [] c = (Inr (), c)"
| "handle_loop x cl from_node orig_cell (WaiterRef w # hs) c =
     (let c1 = c\<lparr>waiters := (waiters c)(w := Waiter_handler cl (waiters c w))\<rparr>;
          cur = get_handlers (handlers c1) (type_of cl)
      in if WaiterRef w \<in> set cur then
           handle_loop x cl from_node orig_cell hs
             (c1\<lparr>handlers := (handlers c1)(type_of cl \<mapsto> remove1 (WaiterRef w) cur)\<rparr>)
         else (Inl (ValueError ''list.remove(x): x not in list''), c1))"
| "handle_loop x cl from_node orig_cell (Callback cb # hs) c =
     (case invoke x cb cl from_node orig_cell c of
        (Inl e, c1) \<Rightarrow> (Inl e, c1)
      | (Inr u, c1) \<Rightarrow> handle_loop x cl from_node orig_cell hs c1)"

definition handle ::
  "('ka, 'k) ext \<Rightarrow> cell \<Rightarrow> nat option \<Rightarrow> RelayedTorCell option
     \<Rightarrow> ('ka, 'k) TorCircuit \<Rightarrow> (error + unit) \<times> ('ka, 'k) TorCircuit" where
  "handle x cl from_node orig_cell c =
     (let hs = get_handlers (handlers c) (type_of cl)
      in if hs = [] then (Inr (), logmsg Error ''%s was received but no handlers for it'' c)
         else handle_loop x cl from_node orig_cell hs c)"

definition handle_cell ::
  "('ka, 'k) ext \<Rightarrow> cell \<Rightarrow> ('ka, 'k) TorCircuit \<Rightarrow> (error + unit) \<times> ('ka, 'k) TorCircuit" where
  "handle_cell x cl c = handle x cl None None c"

section \<open>Receiving: onion decryption\<close>

text \<open>
  The loop of \<^verbatim>\<open>_decrypt\<close>: the position \<open>i\<close> of \<^verbatim>\<open>enumerate\<close>, the nodes still to visit,
  the cell, and \<^verbatim>\<open>from_node\<close> so far. The last component of the result says whether the
  loop left through \<^verbatim>\<open>break\<close>, where the source logs the warning \<^verbatim>\<open>Decrypted earlier\<close>.
\<close>

fun decrypt_loop ::
  "('ka, 'k) ext \<Rightarrow> nat \<Rightarrow> ('ka, 'k) CircuitNode list \<Rightarrow> RelayedTorCell \<Rightarrow> nat option
     \<Rightarrow> (error + unit) \<times> ('ka, 'k) CircuitNode list \<times> RelayedTorCell \<times> nat option \<times> bool" where
  "decrypt_loop x i [] rc from_node = (Inr (), [], rc, from_node, False)"
| "decrypt_loop x i (n # ns) rc from_node =
     (if \<not> is_encrypted rc then (Inr (), n # ns, rc, from_node, True)
      else (case decrypt_backward x n rc of
              Inl e \<Rightarrow> (Inl e, n # ns, rc, from_node, False)
            | Inr (n', rc') \<Rightarrow>
                (case decrypt_loop x (Suc i) ns rc' (Some i) of
                   (r, ns', rc'', f, brk) \<Rightarrow> (r, n' # ns', rc'', f, brk))))"

text \<open>
  \<^verbatim>\<open>_decrypt\<close> returns \<^verbatim>\<open>from_node\<close> and \<^verbatim>\<open>relay_cell.get_decrypted()\<close>; the relay cell
  object itself, mutated in place, is returned here as well, since \<^verbatim>\<open>handle_relay\<close>
  goes on to pass it as \<^verbatim>\<open>orig_cell\<close>.
\<close>

definition decrypt ::
  "('ka, 'k) ext \<Rightarrow> RelayedTorCell \<Rightarrow> ('ka, 'k) TorCircuit
     \<Rightarrow> (error + (nat option \<times> cell \<times> RelayedTorCell)) \<times> ('ka, 'k) TorCircuit" where
  "decrypt x relay_cell c =
     (if \<not> is_encrypted relay_cell then (Inl (AssertionError ''relay_cell.is_encrypted''), c)
      else (case circuit_nodes c of
              None \<Rightarrow> (Inl (TypeError ''NoneType is not iterable''), c)
            | Some ns \<Rightarrow>
                (case decrypt_loop x 0 ns relay_cell None of
                   (r, ns', rc', from_node, brk) \<Rightarrow>
                     (let c0 = c\<lparr>circuit_nodes := Some ns'\<rparr>;
                          c1 = (if brk then logmsg Warning ''Decrypted earlier'' c0 else c0)
                      in case r of
                           Inl e \<Rightarrow> (Inl e, c1)
                         | Inr u \<Rightarrow>
                             (case get_decrypted x rc' of
                                Inl e \<Rightarrow> (Inl e, c1)
                              | Inr inner \<Rightarrow> (Inr (from_node, inner, rc'), c1))))))"

text \<open>
  \<^verbatim>\<open>handle_relay\<close>. The debug line reads \<^verbatim>\<open>circuit_node.router.nickname\<close>, which raises
  when \<^verbatim>\<open>_decrypt\<close> returned no node.
\<close>

definition handle_relay ::
  "('ka, 'k) ext \<Rightarrow> RelayedTorCell \<Rightarrow> ('ka, 'k) TorCircuit
     \<Rightarrow> (error + unit) \<times> ('ka, 'k) TorCircuit" where
  "handle_relay x relay_cell c =
     (case decrypt x relay_cell c of
        (Inl e, c1) \<Rightarrow> (Inl e, c1)
      | (Inr (from_node, inner, rc'), c1) \<Rightarrow>
          (case from_node of
             None \<Rightarrow> (Inl (AttributeError ''router''), c1)
           | Some i \<Rightarrow> handle x inner (Some i) (Some rc') c1))"

text \<open>
  \<^verbatim>\<open>TorReceiver._do_recv\<close>: every cell read from the guard link is handled inside
  \<^verbatim>\<open>try ... except BaseException\<close>, which logs and goes on to the next cell. The routing
  of a relay cell to \<^verbatim>\<open>handle_relay\<close> and of any other cell to \<^verbatim>\<open>handle_cell\<close> is the
  guard's, as the spec describes the inbound control flow.
\<close>

definition recv_one :: "('ka, 'k) ext \<Rightarrow> wire \<Rightarrow> ('ka, 'k) TorCircuit \<Rightarrow> ('ka, 'k) TorCircuit" where
  "recv_one x a c =
     (case (case a of Plain cl \<Rightarrow> handle_cell x cl c | Relayed rc \<Rightarrow> handle_relay x rc c) of
        (Inl e, c1) \<Rightarrow> logmsg Error ''Some handle errors'' c1
      | (Inr u, c1) \<Rightarrow> c1)"

fun do_recv :: "('ka, 'k) ext \<Rightarrow> wire list \<Rightarrow> ('ka, 'k) TorCircuit \<Rightarrow> ('ka, 'k) TorCircuit" where
  "do_recv x [] c = c"
| "do_recv x (a # as) c = do_recv x as (recv_one x a c)"

section \<open>Waiting for a reply\<close>

text \<open>
  \<^verbatim>\<open>create_waiter\<close> is a generator under \<^verbatim>\<open>@contextmanager\<close>: it subscribes a new
  waiter, yields it to the body of the \<^verbatim>\<open>with\<close> statement, and unsubscribes it in the
  statement after the \<^verbatim>\<open>yield\<close>. There is no \<^verbatim>\<open>try ... finally\<close> around the \<^verbatim>\<open>yield\<close>:
  an exception raised by the body is thrown into the generator at the \<^verbatim>\<open>yield\<close>,
  nothing catches it there, and the statement after the \<^verbatim>\<open>yield\<close> does not run.
\<close>

definition create_waiter_enter ::
  "cell_types \<Rightarrow> ('ka, 'k) TorCircuit \<Rightarrow> nat \<times> ('ka, 'k) TorCircuit" where
  "create_waiter_enter ts c =
     (let w = next_waiter c
      in (w, c\<lparr>waiters := (waiters c)(w := Waiter_init ts),
               next_waiter := Suc w,
               handlers := subscribe_for ts (WaiterRef w) (handlers c)\<rparr>))"

definition create_waiter ::
  "cell_types \<Rightarrow> (nat \<Rightarrow> ('ka, 'k) TorCircuit \<Rightarrow> (error + 'a) \<times> ('ka, 'k) TorCircuit)
     \<Rightarrow> ('ka, 'k) TorCircuit \<Rightarrow> (error + 'a) \<times> ('ka, 'k) TorCircuit" where
  "create_waiter ts body c =
     (case create_waiter_enter ts c of
        (w, c1) \<Rightarrow>
          (case body w c1 of
             (Inl e, c2) \<Rightarrow> (Inl e, c2)
           | (Inr v, c2) \<Rightarrow> (Inr v, c2\<lparr>handlers := unsubscribe_for ts (WaiterRef w) (handlers c2)\<rparr>)))"

text \<open>
  While the caller is blocked in \<^verbatim>\<open>w.get()\<close> the receiver thread dispatches the cells
  that arrive; \<open>arrivals\<close> are those cells, in link order. \<^verbatim>\<open>get\<close> then reads the waiter
  as the receiver left it.
\<close>

definition send_wait ::
  "('ka, 'k) ext \<Rightarrow> cell \<Rightarrow> cell_types \<Rightarrow> wire list \<Rightarrow> ('ka, 'k) TorCircuit
     \<Rightarrow> (error + cell option) \<times> ('ka, 'k) TorCircuit" where
  "send_wait x cl wait_cell arrivals c =
     create_waiter wait_cell
       (\<lambda>w c1. let c2 = do_recv x arrivals (send (Plain cl) c1)
                in (Waiter_get (waiters c2 w), c2)) c"

definition send_relay_wait ::
  "('ka, 'k) ext \<Rightarrow> cell \<Rightarrow> cell_types \<Rightarrow> relay_kind option \<Rightarrow> nat \<Rightarrow> wire list
     \<Rightarrow> ('ka, 'k) TorCircuit \<Rightarrow> (error + cell option) \<times> ('ka, 'k) TorCircuit" where
  "send_relay_wait x inner wait_cells rt sid arrivals c =
     create_waiter wait_cells
       (\<lambda>w c1. case send_relay x inner rt sid c1 of
                  (Inl e, c2) \<Rightarrow> (Inl e, c2)
                | (Inr u, c2) \<Rightarrow>
                    (let c3 = do_recv x arrivals c2
                     in (Waiter_get (waiters c3 w), c3))) c"

section \<open>Circuit operations\<close>

definition initialize ::
  "('ka, 'k) ext \<Rightarrow> OnionRouter \<Rightarrow> wire list \<Rightarrow> ('ka, 'k) TorCircuit
     \<Rightarrow> (error + ('ka, 'k) CircuitNode list) \<times> ('ka, 'k) TorCircuit" where
  "initialize x r arrivals c =
     (case create_onion_skin x (CircuitNode_init r NTOR) of
        Inl e \<Rightarrow> (Inl e, c)
      | Inr (onion_skin, circuit_node) \<Rightarrow>
          (case send_wait x
                  (Cell CellCreate2 (c_id c) (Create2Attrs (handshake_type circuit_node) onion_skin))
                  (One CellCreated2) arrivals c of
             (Inl e, c1) \<Rightarrow> (Inl e, c1)
           | (Inr None, c1) \<Rightarrow> (Inl (AttributeError ''handshake_data''), c1)
           | (Inr (Some cell_created2), c1) \<Rightarrow>
               (case handshake_data cell_created2 of
                  None \<Rightarrow> (Inl (AttributeError ''handshake_data''), c1)
                | Some hdata \<Rightarrow>
                    (case complete_handshake x circuit_node hdata of
                       Inl e \<Rightarrow> (Inl e, c1)
                     | Inr n \<Rightarrow> (Inr [n], c1)))))"

definition create ::
  "('ka, 'k) ext \<Rightarrow> nat \<Rightarrow> wire list \<Rightarrow> ('ka, 'k) TorCircuit
     \<Rightarrow> (error + unit) \<times> ('ka, 'k) TorCircuit" where
  "create x g arrivals c =
     (if state c \<noteq> Unknown then (Inl (AssertionError ''Circuit already connected''), c)
      else (case initialize x (c_router c) arrivals c of
              (Inl e, c1) \<Rightarrow> (Inl e, c1)
            | (Inr ns, c1) \<Rightarrow>
                (Inr (),
                 c1\<lparr>circuit_nodes := Some ns, state := Connected, guard := Some g,
                    handlers :=
                      subscribe_for (Many [CellRelayData, CellRelaySendMe, CellRelayConnected])
                        (Callback on_stream_cb)
                        (subscribe_for (One CellRelayEnd) (Callback on_stream_end_cb)
                           (subscribe_for (One CellRelayTruncated) (Callback on_truncated_cb)
                              (handlers c1)))\<rparr>)))"

text \<open>\<^verbatim>\<open>extend\<close>, under \<^verbatim>\<open>@check_connected\<close>.\<close>

definition extend ::
  "('ka, 'k) ext \<Rightarrow> OnionRouter \<Rightarrow> TorHandshakeType \<Rightarrow> wire list \<Rightarrow> ('ka, 'k) TorCircuit
     \<Rightarrow> (error + unit) \<times> ('ka, 'k) TorCircuit" where
  "extend x next_onion_router ht arrivals c =
     (if state c \<noteq> Connected then (Inl (AssertionError ''Circuit must be connected first''), c)
      else (case create_onion_skin x (CircuitNode_init next_onion_router ht) of
              Inl e \<Rightarrow> (Inl e, c)
            | Inr (skin, extend_node) \<Rightarrow>
                (case send_relay_wait x
                        (Cell CellRelayExtend2 0
                           (Extend2Attrs (ip next_onion_router) (tor_port next_onion_router)
                              (fingerprint next_onion_router) skin))
                        (Many [CellRelayExtended2, CellRelayTruncated]) (Some CellRelayEarly) 0
                        arrivals c of
                   (Inl e, c1) \<Rightarrow> (Inl e, c1)
                 | (Inr None, c1) \<Rightarrow> (Inl (AttributeError ''handshake_data''), c1)
                 | (Inr (Some recv_cell), c1) \<Rightarrow>
                     (if type_of recv_cell = CellRelayTruncated then
                        (case reason recv_cell of
                           None \<Rightarrow> (Inl (AttributeError ''reason''), c1)
                         | Some r \<Rightarrow> (Inl (CircuitExtendError (''Extend error '' @ r)), c1))
                      else
                        (case handshake_data recv_cell of
                           None \<Rightarrow> (Inl (AttributeError ''handshake_data''), c1)
                         | Some hdata \<Rightarrow>
                             (case complete_handshake x extend_node hdata of
                                Inl e \<Rightarrow> (Inl e, c1)
                              | Inr n \<Rightarrow>
                                  (case circuit_nodes c1 of
                                     None \<Rightarrow> (Inl (AttributeError ''append''), c1)
                                   | Some ns \<Rightarrow>
                                       (Inr (), c1\<lparr>circuit_nodes := Some (ns @ [n])\<rparr>))))))))"

section \<open>Hidden-service attachment\<close>

definition rendezvous_establish ::
  "('ka, 'k) ext \<Rightarrow> bytes \<Rightarrow> wire list \<Rightarrow> ('ka, 'k) TorCircuit
     \<Rightarrow> (error + unit) \<times> ('ka, 'k) TorCircuit" where
  "rendezvous_establish x cookie arrivals c =
     (if length cookie \<noteq> 20 then (Inl (AssertionError ''len(rendezvous_cookie) == 20''), c)
      else (case send_relay_wait x
                   (Cell CellRelayEstablishRendezvous (c_id c) (RendezvousCookie cookie))
                   (One CellRelayRendezvousEstablished) None 0 arrivals c of
              (Inl e, c1) \<Rightarrow> (Inl e, c1)
            | (Inr cell_established, c1) \<Rightarrow> (Inr (), c1)))"

text \<open>
  \<^verbatim>\<open>HiddenServiceConnector\<close> and what it yields are outside \<^verbatim>\<open>circuit.py\<close>; what they do
  is data of the run. A responsible directory yields its introductions and then ends,
  raises \<^verbatim>\<open>DescriptorNotAvailable\<close> (which \<^verbatim>\<open>ignore\<close> swallows) or raises something
  else; \<^verbatim>\<open>introduction.connect\<close> returns a node or raises.
\<close>

datatype ('ka, 'k) introduction = ConnectReturns "('ka, 'k) CircuitNode" | ConnectRaises

datatype dir_end = DirExhausted | DescriptorNotAvailable | DirRaises error

text \<open>
  The inner loop. \<^verbatim>\<open>self._circuit_nodes.append\<close> is inside the \<^verbatim>\<open>try\<close>, so on a circuit
  without a node list it raises into \<^verbatim>\<open>except BaseException\<close> like a failed connect.
  The result says whether the function returned from inside the loop.
\<close>

fun try_introductions ::
  "HiddenService \<Rightarrow> ('ka, 'k) introduction list \<Rightarrow> ('ka, 'k) TorCircuit
     \<Rightarrow> bool \<times> ('ka, 'k) TorCircuit" where
  "try_introductions hs [] c = (False, c)"
| "try_introductions hs (ConnectRaises # is) c =
     try_introductions hs is (logmsg Error ''Some errors'' c)"
| "try_introductions hs (ConnectReturns extend_node # is) c =
     (case circuit_nodes c of
        None \<Rightarrow> try_introductions hs is (logmsg Error ''Some errors'' c)
      | Some ns \<Rightarrow> (True, c\<lparr>circuit_nodes := Some (ns @ [extend_node]), associated_hs := Some hs\<rparr>))"

fun try_responsible_dirs ::
  "HiddenService \<Rightarrow> (('ka, 'k) introduction list \<times> dir_end) list \<Rightarrow> ('ka, 'k) TorCircuit
     \<Rightarrow> (error + unit) \<times> ('ka, 'k) TorCircuit" where
  "try_responsible_dirs hs [] c = (Inl (Exception ''Can't extend to hidden service''), c)"
| "try_responsible_dirs hs ((intros, e) # ds) c =
     (case try_introductions hs intros c of
        (True, c1) \<Rightarrow> (Inr (), c1)
      | (False, c1) \<Rightarrow>
          (case e of
             DirRaises err \<Rightarrow> (Inl err, c1)
           | _ \<Rightarrow> try_responsible_dirs hs ds c1))"

definition extend_to_hidden ::
  "('ka, 'k) ext \<Rightarrow> HiddenService \<Rightarrow> wire list
     \<Rightarrow> (('ka, 'k) introduction list \<times> dir_end) list \<Rightarrow> ('ka, 'k) TorCircuit
     \<Rightarrow> (error + unit) \<times> ('ka, 'k) TorCircuit" where
  "extend_to_hidden x hidden_service arrivals dirs c =
     (case associated_hs c of
        Some a \<Rightarrow>
          (if onion a = onion hidden_service then
             (Inr (), logmsg Debug ''Circuit #%x already associated with %s'' c)
           else
             (Inl (Exception
                ''It's not possible associate one circuit to more then one hidden service''), c))
      | None \<Rightarrow>
          (case rendezvous_establish x (rendezvous_cookie hidden_service) arrivals c of
             (Inl e, c1) \<Rightarrow> (Inl e, c1)
           | (Inr u, c1) \<Rightarrow> try_responsible_dirs hidden_service dirs c1))"

section \<open>The onion layers, as the specification writes them\<close>

text \<open>
  The specification describes the bytes on the wire as the nesting
  \<^verbatim>\<open>encrypt_forward(n1, encrypt_forward(n2, ... encrypt_forward(nk, c) ...))\<close>. With the
  crypto states \<open>ks\<close> of the nodes, first hop first, this is \<open>nested\<close>. Its counterpart
  for an inbound cell, \<open>peeled\<close>, removes the layers first hop first.
\<close>

definition nested :: "('ka, 'k) ext \<Rightarrow> 'k list \<Rightarrow> RelayedTorCell \<Rightarrow> RelayedTorCell" where
  "nested x ks rc = foldr (\<lambda>k r. snd (cs_encrypt_forward x k r)) ks rc"

definition peeled :: "('ka, 'k) ext \<Rightarrow> 'k list \<Rightarrow> RelayedTorCell \<Rightarrow> RelayedTorCell" where
  "peeled x ks rc = fold (\<lambda>k r. snd (cs_decrypt_backward x k r)) ks rc"

section \<open>What an operation leaves alone\<close>

text \<open>
  The order in which the specification lets the state move:
  Unknown, then Connected, then Destroyed.
\<close>

fun state_rank :: "TorCircuitState \<Rightarrow> nat" where
  "state_rank Unknown = 0"
| "state_rank Connected = 1"
| "state_rank Destroyed = 2"

text \<open>
  \<open>recv_frame\<close> relates a circuit to a later one that has the same identity and the same
  routers along its path, and whose state has not moved backwards. \<open>cb_frame\<close> says in
  addition that the handler registry and the waiters are as before.
\<close>

definition recv_frame :: "('ka, 'k) TorCircuit \<Rightarrow> ('ka, 'k) TorCircuit \<Rightarrow> bool" where
  "recv_frame c c' \<longleftrightarrow>
     c_id c' = c_id c \<and> guard c' = guard c \<and> associated_hs c' = associated_hs c
     \<and> map_option (map router) (circuit_nodes c') = map_option (map router) (circuit_nodes c)
     \<and> state_rank (state c) \<le> state_rank (state c')"

definition cb_frame :: "('ka, 'k) TorCircuit \<Rightarrow> ('ka, 'k) TorCircuit \<Rightarrow> bool" where
  "cb_frame c c' \<longleftrightarrow>
     recv_frame c c' \<and> handlers c' = handlers c \<and> waiters c' = waiters c
     \<and> next_waiter c' = next_waiter c"


text \<open>
  Two observations about the waiter \<open>w\<close> of an \<^verbatim>\<open>extend\<close>. \<open>guarded w hs\<close>: in the handler
  list \<open>hs\<close> the waiter does not come before the first \<^verbatim>\<open>_on_truncated\<close>, so a dispatch
  over \<open>hs\<close> reaches it only after that handler has run. \<open>truncated_seen w c\<close>: the cell
  the waiter holds is a \<^verbatim>\<open>CellRelayTruncated\<close>.
\<close>

definition guarded :: "nat \<Rightarrow> handler list \<Rightarrow> bool" where
  "guarded w hs \<longleftrightarrow> WaiterRef w \<notin> set (takeWhile (\<lambda>h. h \<noteq> Callback on_truncated_cb) hs)"

definition truncated_seen :: "nat \<Rightarrow> ('ka, 'k) TorCircuit \<Rightarrow> bool" where
  "truncated_seen w c \<longleftrightarrow>
     (case read_cell (waiters c w) of None \<Rightarrow> False | Some cl \<Rightarrow> type_of cl = CellRelayTruncated)"

section \<open>The operations of a circuit\<close>

text \<open>
  The operations of \<^verbatim>\<open>TorCircuit\<close> that the model covers, with what the environment
  contributes to each run: the cells that arrive while the operation waits, the outcomes
  of the hidden-service connector. \<open>OpReceive\<close> is the receiver thread handling the
  cells it has read.
\<close>

datatype ('ka, 'k) operation =
    OpCreate nat "wire list"
  | OpDestroy bool
  | OpExtend OnionRouter TorHandshakeType "wire list"
  | OpExtendToHidden HiddenService "wire list" "(('ka, 'k) introduction list \<times> dir_end) list"
  | OpHandleCell cell
  | OpHandleRelay RelayedTorCell
  | OpReceive "wire list"
  | OpCloseStream nat
  | OpCloseAllStreams

fun run_op ::
  "('ka, 'k) ext \<Rightarrow> ('ka, 'k) operation \<Rightarrow> ('ka, 'k) TorCircuit
     \<Rightarrow> (error + unit) \<times> ('ka, 'k) TorCircuit" where
  "run_op x (OpCreate g arrivals) c = create x g arrivals c"
| "run_op x (OpDestroy send_destroy) c = destroy x send_destroy c"
| "run_op x (OpExtend r ht arrivals) c = extend x r ht arrivals c"
| "run_op x (OpExtendToHidden hs arrivals dirs) c = extend_to_hidden x hs arrivals dirs c"
| "run_op x (OpHandleCell cl) c = handle_cell x cl c"
| "run_op x (OpHandleRelay rc) c = handle_relay x rc c"
| "run_op x (OpReceive arrivals) c = (Inr (), do_recv x arrivals c)"
| "run_op x (OpCloseStream sid) c = close_stream x sid c"
| "run_op x OpCloseAllStreams c = close_all_streams x c"

fun run_ops ::
  "('ka, 'k) ext \<Rightarrow> ('ka, 'k) operation list \<Rightarrow> ('ka, 'k) TorCircuit \<Rightarrow> ('ka, 'k) TorCircuit" where
  "run_ops x [] c = c"
| "run_ops x (op # ops) c = run_ops x ops (snd (run_op x op c))"

section \<open>A small instance for evaluation\<close>

text \<open>
  A toy instance of the collaborators, for evaluating the model on concrete circuits.
  A crypto state is a key; encrypting pushes the key on the payload and decrypting with
  the matching key pops it. The cell is recognised when the last layer is gone.
  \<^verbatim>\<open>get_decrypted\<close> refuses a cell that is still encrypted.
\<close>

definition toy_encrypt :: "nat \<Rightarrow> RelayedTorCell \<Rightarrow> nat \<times> RelayedTorCell" where
  "toy_encrypt k rc = (k, rc\<lparr>is_encrypted := True, payload := k # payload rc\<rparr>)"

definition toy_decrypt :: "nat \<Rightarrow> RelayedTorCell \<Rightarrow> nat \<times> RelayedTorCell" where
  "toy_decrypt k rc =
     (case payload rc of
        [] \<Rightarrow> (k, rc)
      | p # ps \<Rightarrow> (if p = k then (k, rc\<lparr>is_encrypted := (ps \<noteq> []), payload := ps\<rparr>) else (k, rc)))"

definition toy_get_decrypted :: "RelayedTorCell \<Rightarrow> error + cell" where
  "toy_get_decrypted rc =
     (if is_encrypted rc then Inl (AssertionError ''cell must be decrypted'')
      else (case inner_cell rc of
              None \<Rightarrow> Inl (AttributeError ''inner_cell'')
            | Some cl \<Rightarrow> Inr cl))"

definition toy :: "(nat, nat) ext" where
  "toy =
     \<lparr>ntor_key_agreement = (\<lambda>r. tor_port r),
      tap_key_agreement = (\<lambda>r. tor_port r),
      ka_handshake = (\<lambda>ka. [ka]),
      ka_complete_handshake = (\<lambda>ka d. if d = [] then Inl (Exception ''handshake failed'') else Inr d),
      new_crypto_state = sum_list,
      cs_encrypt_forward = toy_encrypt,
      cs_decrypt_backward = toy_decrypt,
      get_decrypted = toy_get_decrypted\<rparr>"

definition router_of :: "nat \<Rightarrow> OnionRouter" where
  "router_of p = \<lparr>nickname = ''relay'', ip = ''10.0.0.1'', tor_port = p, fingerprint = [p]\<rparr>"

definition node_of :: "nat \<Rightarrow> (nat, nat) CircuitNode" where
  "node_of k =
     \<lparr>router = router_of k, handshake_type = NTOR, key_agreement = Some k,
      crypto_state = Some k, window = TorWindow_init\<rparr>"

definition fresh_circuit :: "(nat, nat) TorCircuit" where
  "fresh_circuit =
     \<lparr>c_id = 7, c_router = router_of 1, handlers = Map.empty,
      waiters = (\<lambda>w. Waiter_init (Many [])), next_waiter = 0, stream_map = [],
      circuit_nodes = None, state = Unknown, guard = None, associated_hs = None,
      sent = [], logged = []\<rparr>"

text \<open>A circuit as \<^verbatim>\<open>create\<close> leaves it, extended to the hops with keys 1, 2 and 3.\<close>

definition created_handlers :: "cell_type \<rightharpoonup> handler list" where
  "created_handlers =
     subscribe_for (Many [CellRelayData, CellRelaySendMe, CellRelayConnected]) (Callback on_stream_cb)
       (subscribe_for (One CellRelayEnd) (Callback on_stream_end_cb)
          (subscribe_for (One CellRelayTruncated) (Callback on_truncated_cb) Map.empty))"

definition connected_circuit :: "(nat, nat) TorCircuit" where
  "connected_circuit =
     fresh_circuit\<lparr>circuit_nodes := Some [node_of 1, node_of 2, node_of 3], state := Connected,
       guard := Some 0, handlers := created_handlers, stream_map := [(5, [])]\<rparr>"

definition onion_a :: HiddenService where
  "onion_a = \<lparr>onion = ''aaaa'', hostname = ''aaaa.onion'', rendezvous_cookie = replicate 20 0\<rparr>"

definition onion_b :: HiddenService where
  "onion_b = \<lparr>onion = ''bbbb'', hostname = ''bbbb.onion'', rendezvous_cookie = replicate 20 1\<rparr>"

text \<open>Inbound relay cells as the hop with key 3 sends them: three layers, key 1 outermost.\<close>

definition inbound :: "cell \<Rightarrow> nat \<Rightarrow> wire" where
  "inbound cl sid =
     Relayed \<lparr>relay_type = CellRelay, inner_cell = Some cl, stream_id = sid, circuit_id = 7,
              is_encrypted = True, payload = [1, 2, 3]\<rparr>"

definition rend_reply :: wire where
  "rend_reply = inbound (Cell CellRelayRendezvousEstablished 7 NoAttrs) 0"

text \<open>An inbound relay cell as the hop with key 2 sends it: two layers.\<close>

definition from_middle :: RelayedTorCell where
  "from_middle =
     \<lparr>relay_type = CellRelay, inner_cell = Some (Cell CellRelayConnected 7 NoAttrs),
      stream_id = 5, circuit_id = 7, is_encrypted = True, payload = [1, 2]\<rparr>"

definition plain_data :: RelayedTorCell where
  "plain_data = new_relay_cell CellRelay (Cell CellRelayData 7 (Payload [104, 105])) 5 7"

text \<open>The same circuit with the deliver window of the last hop one cell above the threshold.\<close>

definition low_window_circuit :: "(nat, nat) TorCircuit" where
  "low_window_circuit =
     connected_circuit\<lparr>circuit_nodes :=
       Some [node_of 1, node_of 2, (node_of 3)\<lparr>window := \<lparr>package = 1000, deliver = 901\<rparr>\<rparr>]\<rparr>"

definition data_cell :: cell where
  "data_cell = Cell CellRelayData 7 (Payload [104, 105])"

definition sendme_cell :: cell where
  "sendme_cell = Cell CellRelaySendMe 7 NoAttrs"

text \<open>
  The circuit while \<^verbatim>\<open>extend\<close> waits: a waiter subscribed for \<^verbatim>\<open>CellRelayExtended2\<close> and
  \<^verbatim>\<open>CellRelayTruncated\<close>. \<open>orig3\<close> is a relay cell from the last hop after decryption.
\<close>

definition extended2_cell :: cell where
  "extended2_cell = Cell CellRelayExtended2 7 (HandshakeData [9])"

definition truncated_cell :: cell where
  "truncated_cell = Cell CellRelayTruncated 7 (Reason ''RESOURCELIMIT'')"

definition created2_cell :: cell where
  "created2_cell = Cell CellCreated2 7 (HandshakeData [9])"

definition create2_cell :: cell where
  "create2_cell = Cell CellCreate2 7 (Create2Attrs NTOR [1])"

definition orig3 :: RelayedTorCell where
  "orig3 =
     \<lparr>relay_type = CellRelay, inner_cell = None, stream_id = 0, circuit_id = 7,
      is_encrypted = False, payload = []\<rparr>"



text \<open>An inbound relay cell under a layer that no hop of the circuit can remove.\<close>

definition unrecognised :: RelayedTorCell where
  "unrecognised =
     \<lparr>relay_type = CellRelay, inner_cell = Some data_cell, stream_id = 5, circuit_id = 7,
      is_encrypted = True, payload = [4]\<rparr>"

text \<open>The node and the request of an \<^verbatim>\<open>extend\<close> towards a fourth hop.\<close>

definition node4 :: "(nat, nat) CircuitNode" where
  "node4 = (CircuitNode_init (router_of 4) NTOR)\<lparr>key_agreement := Some 4\<rparr>"

definition extend2_cell :: cell where
  "extend2_cell =
     Cell CellRelayExtend2 0
       (Extend2Attrs (ip (router_of 4)) (tor_port (router_of 4)) (fingerprint (router_of 4)) [4])"

section \<open>Evaluation on the small instance\<close>

lemmas eval_defs =
  destroy_def close_all_streams_def close_stream_def send_relay_def encrypt_def
  encrypt_forward_def decrypt_backward_def toy_def toy_encrypt_def toy_decrypt_def
  toy_get_decrypted_def new_relay_cell_def connected_circuit_def fresh_circuit_def
  node_of_def router_of_def send_def logmsg_def

lemmas recv_defs =
  recv_one_def handle_relay_def handle_cell_def handle_def decrypt_def invoke_def
  on_stream_def on_stream_end_def on_truncated_def guard_destroy_circuit_def
  sendme_process_def node_at_def set_window_def get_by_id_def stream_handle_cell_def
  get_handlers_def Waiter_handler_def Waiter_init_def Waiter_get_def
  subscribe_for_cell_def unsubscribe_for_cell_def created_handlers_def
  reason_def handshake_data_def

lemmas wait_defs =
  create_waiter_def create_waiter_enter_def send_wait_def send_relay_wait_def

section \<open>Onion encryption and decryption\<close>

lemma map_rev_eq: "map f xs = map g (rev ys) \<Longrightarrow> map f (rev xs) = map g ys"
  by (metis rev_map rev_rev_ident)

lemma map_rev_eq2: "map f xs = map g ys \<Longrightarrow> map f (rev xs) = map g (rev ys)"
  by (metis rev_map)

lemma encrypt_loop_ok:
  "map crypto_state ns = map Some ks \<Longrightarrow>
   \<exists>ns'. encrypt_loop x ns rc = (Inr (), ns', fold (\<lambda>k r. snd (cs_encrypt_forward x k r)) ks rc)
        \<and> length ns' = length ns \<and> map router ns' = map router ns
        \<and> map window ns' = map window ns \<and> (\<exists>ks'. map crypto_state ns' = map Some ks')"
proof (induction ns arbitrary: ks rc)
  case Nil
  then show ?case by simp
next
  case (Cons n ns)
  then obtain k ks0 where ks: "ks = k # ks0" "crypto_state n = Some k"
      "map crypto_state ns = map Some ks0"
    by (cases ks) auto
  obtain k' rc' where e: "cs_encrypt_forward x k rc = (k', rc')"
    by (cases "cs_encrypt_forward x k rc")
  from Cons.IH [OF ks(3), of rc'] obtain ns' ks' where
    ih: "encrypt_loop x ns rc' = (Inr (), ns', fold (\<lambda>k r. snd (cs_encrypt_forward x k r)) ks0 rc')"
        "length ns' = length ns" "map router ns' = map router ns"
        "map window ns' = map window ns" "map crypto_state ns' = map Some ks'"
    by blast
  have k: "\<exists>ks''. map crypto_state (n\<lparr>crypto_state := Some k'\<rparr> # ns') = map Some ks''"
    using ih(5) by (intro exI [of _ "k' # ks'"]) simp
  have "encrypt_loop x (n # ns) rc =
          (Inr (), n\<lparr>crypto_state := Some k'\<rparr> # ns',
           fold (\<lambda>k r. snd (cs_encrypt_forward x k r)) ks rc)"
    using ks e ih(1) by (simp add: encrypt_forward_def)
  moreover have "length (n\<lparr>crypto_state := Some k'\<rparr> # ns') = length (n # ns)"
    "map router (n\<lparr>crypto_state := Some k'\<rparr> # ns') = map router (n # ns)"
    "map window (n\<lparr>crypto_state := Some k'\<rparr> # ns') = map window (n # ns)"
    using ih(2,3,4) by simp_all
  ultimately show ?case using k by blast
qed

lemma encrypt_ok:
  assumes "\<not> is_encrypted rc" "map crypto_state ns = map Some ks"
  shows "\<exists>ns'. encrypt x ns rc = (Inr (), ns', nested x ks rc)
        \<and> length ns' = length ns \<and> map router ns' = map router ns
        \<and> map window ns' = map window ns \<and> (\<exists>ks'. map crypto_state ns' = map Some ks')"
proof -
  have "map crypto_state (rev ns) = map Some (rev ks)"
    using assms(2) by (rule map_rev_eq2)
  from encrypt_loop_ok [OF this, of x rc] obtain ns' ks' where
    l: "encrypt_loop x (rev ns) rc = (Inr (), ns', fold (\<lambda>k r. snd (cs_encrypt_forward x k r)) (rev ks) rc)"
       "length ns' = length ns" "map router ns' = map router (rev ns)"
       "map window ns' = map window (rev ns)" "map crypto_state ns' = map Some ks'"
    by auto
  have m: "map router (rev ns') = map router ns" "map window (rev ns') = map window ns"
       "map crypto_state (rev ns') = map Some (rev ks')"
    using l(3,4,5) by (auto intro: map_rev_eq map_rev_eq2)
  have "encrypt x ns rc = (Inr (), rev ns', nested x ks rc)"
    using assms(1) l(1) by (simp add: encrypt_def nested_def foldr_conv_fold)
  moreover have "length (rev ns') = length ns" using l(2) by simp
  ultimately show ?thesis using m by blast
qed

lemma send_relay_ok:
  assumes "circuit_nodes c = Some ns" "map crypto_state ns = map Some ks"
  shows "\<exists>ns'. send_relay x inner rt sid c =
           (Inr (), c\<lparr>circuit_nodes := Some ns',
                      sent := sent c @ [Relayed (nested x ks
                         (new_relay_cell (case rt of None \<Rightarrow> CellRelay | Some k \<Rightarrow> k) inner sid (c_id c)))]\<rparr>)
        \<and> length ns' = length ns \<and> map router ns' = map router ns
        \<and> map window ns' = map window ns \<and> (\<exists>ks'. map crypto_state ns' = map Some ks')"
proof -
  let ?rc = "new_relay_cell (case rt of None \<Rightarrow> CellRelay | Some k \<Rightarrow> k) inner sid (c_id c)"
  have "\<not> is_encrypted ?rc" by (simp add: new_relay_cell_def)
  from encrypt_ok [OF this assms(2), of x] obtain ns' where
    e: "encrypt x ns ?rc = (Inr (), ns', nested x ks ?rc)"
       "length ns' = length ns" "map router ns' = map router ns"
       "map window ns' = map window ns" "\<exists>ks'. map crypto_state ns' = map Some ks'"
    by blast
  have "send_relay x inner rt sid c =
           (Inr (), c\<lparr>circuit_nodes := Some ns', sent := sent c @ [Relayed (nested x ks ?rc)]\<rparr>)"
    using assms(1) e(1) by (simp add: send_relay_def send_def Let_def)
  then show ?thesis using e by blast
qed

lemma peeled_Cons:
  "peeled x (k # ks) rc = peeled x ks (snd (cs_decrypt_backward x k rc))"
  by (simp add: peeled_def)

lemma decrypt_loop_stop:
  assumes "map crypto_state ns = map Some ks" "j < length ns"
    "\<forall>i\<le>j. is_encrypted (peeled x (take i ks) rc)"
    "\<not> is_encrypted (peeled x (take (Suc j) ks) rc)"
  shows "\<exists>ns'. decrypt_loop x i0 ns rc f =
            (Inr (), ns', peeled x (take (Suc j) ks) rc, Some (i0 + j), Suc j < length ns)
        \<and> length ns' = length ns \<and> drop (Suc j) ns' = drop (Suc j) ns
        \<and> map router ns' = map router ns \<and> map window ns' = map window ns
        \<and> (\<exists>ks'. map crypto_state ns' = map Some ks')"
  using assms
proof (induction j arbitrary: ns ks rc i0 f)
  case 0
  then obtain n ns0 k ks0 where s: "ns = n # ns0" "ks = k # ks0" "crypto_state n = Some k"
      "map crypto_state ns0 = map Some ks0"
    by (cases ns; cases ks) auto
  obtain k' rc' where d: "cs_decrypt_backward x k rc = (k', rc')"
    by (cases "cs_decrypt_backward x k rc")
  have e: "is_encrypted rc" using "0.prems"(3) by (simp add: peeled_def)
  have p: "peeled x (take (Suc 0) ks) rc = rc'" using s d by (simp add: peeled_def)
  then have ne: "\<not> is_encrypted rc'" using "0.prems"(4) by simp
  have l: "decrypt_loop x (Suc i0) ns0 rc' (Some i0) = (Inr (), ns0, rc', Some i0, ns0 \<noteq> [])"
    using ne by (cases ns0) simp_all
  have "decrypt_loop x i0 ns rc f =
          (Inr (), n\<lparr>crypto_state := Some k'\<rparr> # ns0, peeled x (take (Suc 0) ks) rc,
           Some (i0 + 0), Suc 0 < length ns)"
    using s d e l p by (simp add: decrypt_backward_def)
  moreover have "\<exists>ks'. map crypto_state (n\<lparr>crypto_state := Some k'\<rparr> # ns0) = map Some ks'"
    using s(4) by (intro exI [of _ "k' # ks0"]) simp
  ultimately show ?case using s by (intro exI [of _ "n\<lparr>crypto_state := Some k'\<rparr> # ns0"]) simp
next
  case (Suc j)
  then obtain n ns0 k ks0 where s: "ns = n # ns0" "ks = k # ks0" "crypto_state n = Some k"
      "map crypto_state ns0 = map Some ks0"
    by (cases ns; cases ks) auto
  obtain k' rc' where d: "cs_decrypt_backward x k rc = (k', rc')"
    by (cases "cs_decrypt_backward x k rc")
  have e: "is_encrypted rc" using Suc.prems(3) by (auto simp: peeled_def dest: spec [of _ 0])
  have a1: "j < length ns0" using Suc.prems(2) s by simp
  have a2: "\<forall>i\<le>j. is_encrypted (peeled x (take i ks0) rc')"
  proof (intro allI impI)
    fix i assume "i \<le> j"
    then have "is_encrypted (peeled x (take (Suc i) ks) rc)" using Suc.prems(3) by simp
    then show "is_encrypted (peeled x (take i ks0) rc')" using s d by (simp add: peeled_Cons)
  qed
  have a3: "\<not> is_encrypted (peeled x (take (Suc j) ks0) rc')"
    using Suc.prems(4) s d by (simp add: peeled_Cons)
  from Suc.IH [OF s(4) a1 a2 a3, of "Suc i0" "Some i0"] obtain ns' ks' where
    ih: "decrypt_loop x (Suc i0) ns0 rc' (Some i0) =
            (Inr (), ns', peeled x (take (Suc j) ks0) rc', Some (Suc i0 + j), Suc j < length ns0)"
        "length ns' = length ns0" "drop (Suc j) ns' = drop (Suc j) ns0"
        "map router ns' = map router ns0" "map window ns' = map window ns0"
        "map crypto_state ns' = map Some ks'"
    by blast
  have "decrypt_loop x i0 ns rc f =
          (Inr (), n\<lparr>crypto_state := Some k'\<rparr> # ns', peeled x (take (Suc (Suc j)) ks) rc,
           Some (i0 + Suc j), Suc (Suc j) < length ns)"
    using s d e ih(1) by (simp add: decrypt_backward_def peeled_Cons)
  moreover have "\<exists>ks''. map crypto_state (n\<lparr>crypto_state := Some k'\<rparr> # ns') = map Some ks''"
    using ih(6) by (intro exI [of _ "k' # ks'"]) simp
  ultimately show ?case using s ih(2-5)
    by (intro exI [of _ "n\<lparr>crypto_state := Some k'\<rparr> # ns'"]) simp
qed

lemma decrypt_loop_unrecognised:
  assumes "map crypto_state ns = map Some ks"
    "\<forall>i<length ns. is_encrypted (peeled x (take i ks) rc)"
  shows "\<exists>ns'. decrypt_loop x i0 ns rc f =
            (Inr (), ns', peeled x ks rc,
             (if ns = [] then f else Some (i0 + length ns - 1)), False)
        \<and> length ns' = length ns
        \<and> map router ns' = map router ns \<and> map window ns' = map window ns
        \<and> (\<exists>ks'. map crypto_state ns' = map Some ks')"
  using assms
proof (induction ns arbitrary: ks rc i0 f)
  case Nil
  then show ?case by (simp add: peeled_def)
next
  case (Cons n ns0)
  then obtain k ks0 where s: "ks = k # ks0" "crypto_state n = Some k"
      "map crypto_state ns0 = map Some ks0"
    by (cases ks) auto
  obtain k' rc' where d: "cs_decrypt_backward x k rc = (k', rc')"
    by (cases "cs_decrypt_backward x k rc")
  have e: "is_encrypted rc" using Cons.prems(2) by (auto simp: peeled_def dest: spec [of _ 0])
  have a2: "\<forall>i<length ns0. is_encrypted (peeled x (take i ks0) rc')"
  proof (intro allI impI)
    fix i assume "i < length ns0"
    then have "is_encrypted (peeled x (take (Suc i) ks) rc)" using Cons.prems(2) by simp
    then show "is_encrypted (peeled x (take i ks0) rc')" using s d by (simp add: peeled_Cons)
  qed
  from Cons.IH [OF s(3) a2, of "Suc i0" "Some i0"] obtain ns' ks' where
    ih: "decrypt_loop x (Suc i0) ns0 rc' (Some i0) =
            (Inr (), ns', peeled x ks0 rc',
             (if ns0 = [] then Some i0 else Some (Suc i0 + length ns0 - 1)), False)"
        "length ns' = length ns0"
        "map router ns' = map router ns0" "map window ns' = map window ns0"
        "map crypto_state ns' = map Some ks'"
    by blast
  have "decrypt_loop x i0 (n # ns0) rc f =
          (Inr (), n\<lparr>crypto_state := Some k'\<rparr> # ns', peeled x ks rc,
           Some (i0 + length (n # ns0) - 1), False)"
    using s d e ih(1) by (cases "ns0 = []") (simp_all add: decrypt_backward_def peeled_Cons)
  moreover have "\<exists>ks''. map crypto_state (n\<lparr>crypto_state := Some k'\<rparr> # ns') = map Some ks''"
    using ih(5) by (intro exI [of _ "k' # ks'"]) simp
  ultimately show ?case using ih(2-4)
    by (intro exI [of _ "n\<lparr>crypto_state := Some k'\<rparr> # ns'"]) simp
qed

text \<open>
  Claim C1. On a circuit whose nodes hold the crypto states \<open>ks\<close>, first hop first:
  \<^verbatim>\<open>_encrypt\<close> of a plain relay cell yields the nesting with the first hop outermost,
  which is what \<^verbatim>\<open>_send_relay\<close> hands to the sender; and for an inbound cell that
  stays encrypted until node \<open>j\<close> has removed its layer, \<^verbatim>\<open>_decrypt\<close> applies the nodes
  in list order up to \<open>j\<close>, leaves the later nodes untouched, and reports \<open>j\<close> as
  \<^verbatim>\<open>from_node\<close>, with which \<^verbatim>\<open>handle_relay\<close> dispatches the inner cell.
\<close>

theorem onion_order:
  fixes c :: "('ka, 'k) TorCircuit"
  assumes "circuit_nodes c = Some ns" and "map crypto_state ns = map Some ks"
  shows "(\<not> is_encrypted rc \<longrightarrow>
           (\<exists>ns'. encrypt x ns rc = (Inr (), ns', nested x ks rc)
                 \<and> map router ns' = map router ns))
       \<and> (\<exists>ns'. send_relay x inner rt sid c =
             (Inr (), c\<lparr>circuit_nodes := Some ns',
                        sent := sent c @ [Relayed (nested x ks
                          (new_relay_cell (case rt of None \<Rightarrow> CellRelay | Some k \<Rightarrow> k)
                             inner sid (c_id c)))]\<rparr>))
       \<and> (is_encrypted rc' \<and> j < length ns
            \<and> (\<forall>i\<le>j. is_encrypted (peeled x (take i ks) rc'))
            \<and> \<not> is_encrypted (peeled x (take (Suc j) ks) rc') \<longrightarrow>
           (\<exists>c1 ns'. circuit_nodes c1 = Some ns' \<and> map router ns' = map router ns
               \<and> drop (Suc j) ns' = drop (Suc j) ns
               \<and> decrypt x rc' c =
                   (case get_decrypted x (peeled x (take (Suc j) ks) rc') of
                      Inl e \<Rightarrow> (Inl e, c1)
                    | Inr inner \<Rightarrow> (Inr (Some j, inner, peeled x (take (Suc j) ks) rc'), c1))
               \<and> handle_relay x rc' c =
                   (case get_decrypted x (peeled x (take (Suc j) ks) rc') of
                      Inl e \<Rightarrow> (Inl e, c1)
                    | Inr inner \<Rightarrow>
                        handle x inner (Some j) (Some (peeled x (take (Suc j) ks) rc')) c1)))"
proof (intro conjI impI)
  assume "\<not> is_encrypted rc"
  from encrypt_ok [OF this assms(2), of x]
  show "\<exists>ns'. encrypt x ns rc = (Inr (), ns', nested x ks rc) \<and> map router ns' = map router ns"
    by blast
next
  from send_relay_ok [OF assms, of x inner rt sid]
  show "\<exists>ns'. send_relay x inner rt sid c =
             (Inr (), c\<lparr>circuit_nodes := Some ns',
                        sent := sent c @ [Relayed (nested x ks
                          (new_relay_cell (case rt of None \<Rightarrow> CellRelay | Some k \<Rightarrow> k)
                             inner sid (c_id c)))]\<rparr>)"
    by blast
next
  let ?p = "peeled x (take (Suc j) ks) rc'"
  assume h: "is_encrypted rc' \<and> j < length ns
            \<and> (\<forall>i\<le>j. is_encrypted (peeled x (take i ks) rc'))
            \<and> \<not> is_encrypted ?p"
  from decrypt_loop_stop [OF assms(2), of j x rc' 0 None] h obtain ns' where
    l: "decrypt_loop x 0 ns rc' None = (Inr (), ns', ?p, Some (0 + j), Suc j < length ns)"
       "drop (Suc j) ns' = drop (Suc j) ns" "map router ns' = map router ns"
    by blast
  define c1 where "c1 = (if Suc j < length ns
                         then logmsg Warning ''Decrypted earlier'' (c\<lparr>circuit_nodes := Some ns'\<rparr>)
                         else c\<lparr>circuit_nodes := Some ns'\<rparr>)"
  have n: "circuit_nodes c1 = Some ns'" by (simp add: c1_def logmsg_def)
  have d: "decrypt x rc' c =
             (case get_decrypted x ?p of
                Inl e \<Rightarrow> (Inl e, c1)
              | Inr inner \<Rightarrow> (Inr (Some j, inner, ?p), c1))"
    using h assms(1) l(1) by (simp add: decrypt_def c1_def Let_def split: sum.splits)
  have "handle_relay x rc' c =
             (case get_decrypted x ?p of
                Inl e \<Rightarrow> (Inl e, c1)
              | Inr inner \<Rightarrow> handle x inner (Some j) (Some ?p) c1)"
    by (simp add: handle_relay_def d split: sum.splits)
  with n l(2,3) d
  show "\<exists>c1 ns'. circuit_nodes c1 = Some ns' \<and> map router ns' = map router ns
               \<and> drop (Suc j) ns' = drop (Suc j) ns
               \<and> decrypt x rc' c =
                   (case get_decrypted x ?p of
                      Inl e \<Rightarrow> (Inl e, c1)
                    | Inr inner \<Rightarrow> (Inr (Some j, inner, ?p), c1))
               \<and> handle_relay x rc' c =
                   (case get_decrypted x ?p of
                      Inl e \<Rightarrow> (Inl e, c1)
                    | Inr inner \<Rightarrow> handle x inner (Some j) (Some ?p) c1)"
    by blast
qed

theorem onion_order_witness:
  "circuit_nodes connected_circuit = Some [node_of 1, node_of 2, node_of 3]
   \<and> map crypto_state [node_of 1, node_of 2, node_of 3] = map Some [1, 2, 3]
   \<and> \<not> is_encrypted plain_data
   \<and> (\<exists>ns'. encrypt toy [node_of 1, node_of 2, node_of 3] plain_data =
                (Inr (), ns', plain_data\<lparr>is_encrypted := True, payload := [1, 2, 3]\<rparr>))
   \<and> is_encrypted from_middle
   \<and> is_encrypted (peeled toy (take 0 [1, 2, 3]) from_middle)
   \<and> is_encrypted (peeled toy (take 1 [1, 2, 3]) from_middle)
   \<and> \<not> is_encrypted (peeled toy (take (Suc 1) [1, 2, 3]) from_middle)
   \<and> fst (decrypt toy from_middle connected_circuit) =
        Inr (Some 1, Cell CellRelayConnected 7 NoAttrs,
             from_middle\<lparr>is_encrypted := False, payload := []\<rparr>)"
proof -
  have n: "circuit_nodes connected_circuit = Some [node_of 1, node_of 2, node_of 3]"
    by (simp add: connected_circuit_def)
  have k: "map crypto_state [node_of 1, node_of 2, node_of 3] = map Some [1, 2, 3]"
    by (simp add: node_of_def)
  have p: "\<not> is_encrypted plain_data" by (simp add: plain_data_def new_relay_cell_def)
  have e: "is_encrypted from_middle" by (simp add: from_middle_def)
  have a: "\<forall>i\<le>1. is_encrypted (peeled toy (take i [1, 2, 3]) from_middle)"
    by (auto simp: le_Suc_eq peeled_def toy_def toy_decrypt_def from_middle_def)
  have s: "peeled toy (take (Suc 1) [1, 2, 3]) from_middle
             = from_middle\<lparr>is_encrypted := False, payload := []\<rparr>"
    by (simp add: peeled_def toy_def toy_decrypt_def from_middle_def)
  have nn: "nested toy [1, 2, 3] plain_data = plain_data\<lparr>is_encrypted := True, payload := [1, 2, 3]\<rparr>"
    by (simp add: nested_def toy_def toy_encrypt_def plain_data_def new_relay_cell_def)
  have g: "get_decrypted toy (from_middle\<lparr>is_encrypted := False, payload := []\<rparr>)
             = Inr (Cell CellRelayConnected 7 NoAttrs)"
    by (simp add: toy_def toy_get_decrypted_def from_middle_def)
  have r: "\<not> is_encrypted (peeled toy (take (Suc 1) [1, 2, 3]) from_middle)"
    by (simp add: peeled_def toy_def toy_decrypt_def from_middle_def)
  note t = onion_order [OF n k, of plain_data toy "Cell CellRelayEnd 7 NoAttrs" None 0 from_middle 1]
  from t p obtain ns' where
    "encrypt toy [node_of 1, node_of 2, node_of 3] plain_data = (Inr (), ns', nested toy [1, 2, 3] plain_data)"
    by blast
  then have 1: "\<exists>ns'. encrypt toy [node_of 1, node_of 2, node_of 3] plain_data =
                (Inr (), ns', plain_data\<lparr>is_encrypted := True, payload := [1, 2, 3]\<rparr>)"
    unfolding nn by blast
  have l: "(1::nat) < length [node_of 1, node_of 2, node_of 3]" by simp
  from t e a r l obtain c1 where "decrypt toy from_middle connected_circuit =
      (case get_decrypted toy (peeled toy (take (Suc 1) [1, 2, 3]) from_middle) of
         Inl e \<Rightarrow> (Inl e, c1)
       | Inr inner \<Rightarrow> (Inr (Some 1, inner, peeled toy (take (Suc 1) [1, 2, 3]) from_middle), c1))"
    by blast
  then have 2: "fst (decrypt toy from_middle connected_circuit) =
        Inr (Some 1, Cell CellRelayConnected 7 NoAttrs,
             from_middle\<lparr>is_encrypted := False, payload := []\<rparr>)"
    unfolding s g by simp
  have a0: "is_encrypted (peeled toy (take 0 [1, 2, 3]) from_middle)"
    and a1: "is_encrypted (peeled toy (take 1 [1, 2, 3]) from_middle)"
    by (simp_all add: peeled_def toy_def toy_decrypt_def from_middle_def)
  show ?thesis using n k p e a0 a1 r 1 2 by blast
qed

section \<open>Flow control in the stream handler\<close>

lemma crypto_state_set_window:
  "map crypto_state (ns[n := (ns ! n)\<lparr>window := w\<rparr>]) = map crypto_state ns"
  by (cases "n < length ns") (auto simp: list_eq_iff_nth_eq nth_list_update)

lemma router_set_window:
  "map router (ns[n := (ns ! n)\<lparr>window := w\<rparr>]) = map router ns"
  by (cases "n < length ns") (auto simp: list_eq_iff_nth_eq nth_list_update)

lemma window_set_window:
  "map window (ns[n := (ns ! n)\<lparr>window := w\<rparr>]) = (map window ns)[n := w]"
  by (simp add: map_update)

lemma get_by_id_stream_handle_cell:
  "get_by_id (stream_handle_cell sid cl sm) j =
     (if j = sid then map_option (\<lambda>cs. cs @ [cl]) (get_by_id sm sid) else get_by_id sm j)"
  by (induction sm) (auto simp: get_by_id_def stream_handle_cell_def)

lemma sendme_process_data:
  fixes c :: "('ka, 'k) TorCircuit"
  assumes "circuit_nodes c = Some ns" and "n < length ns"
    and "map crypto_state ns = map Some ks" and "type_of cl = CellRelayData"
  shows "\<exists>c1 ns1. sendme_process x cl n oc c = (Inr False, c1)
        \<and> circuit_nodes c1 = Some ns1 \<and> length ns1 = length ns
        \<and> map router ns1 = map router ns
        \<and> map window ns1 = (map window ns)[n := (window (ns ! n))\<lparr>deliver :=
              (if deliver (window (ns ! n)) - 1 \<le> 900 then deliver (window (ns ! n)) - 1 + 100
               else deliver (window (ns ! n)) - 1)\<rparr>]
        \<and> sent c1 =
             (if deliver (window (ns ! n)) - 1 \<le> 900 then
                sent c @ [Relayed (nested x ks
                  (new_relay_cell CellRelay (Cell CellRelaySendMe (cell_circuit_id cl) NoAttrs) 0 (c_id c)))]
              else sent c)
        \<and> stream_map c1 = stream_map c \<and> logged c1 = logged c \<and> state c1 = state c
        \<and> handlers c1 = handlers c"
proof (cases "deliver (window (ns ! n)) - 1 \<le> 900")
  case True
  let ?w = "(window (ns ! n))\<lparr>deliver := deliver (window (ns ! n)) - 1 + 100\<rparr>"
  let ?c0 = "set_window n ?w c"
  let ?ns0 = "ns[n := (ns ! n)\<lparr>window := ?w\<rparr>]"
  have ns0: "circuit_nodes ?c0 = Some ?ns0" using assms(1) by (simp add: set_window_def)
  have k0: "map crypto_state ?ns0 = map Some ks"
    using assms(3) by (simp add: crypto_state_set_window)
  from send_relay_ok [OF ns0 k0, of x "Cell CellRelaySendMe (cell_circuit_id cl) NoAttrs" None 0]
  obtain ns' where
    s: "send_relay x (Cell CellRelaySendMe (cell_circuit_id cl) NoAttrs) None 0 ?c0 =
          (Inr (), ?c0\<lparr>circuit_nodes := Some ns',
                       sent := sent ?c0 @ [Relayed (nested x ks
                         (new_relay_cell CellRelay (Cell CellRelaySendMe (cell_circuit_id cl) NoAttrs) 0
                            (c_id ?c0)))]\<rparr>)"
       "length ns' = length ?ns0" "map router ns' = map router ?ns0"
       "map window ns' = map window ?ns0"
    by auto
  have n: "need_sendme (deliver_dec (window (ns ! n))) = (True, ?w)"
    using True by (simp add: need_sendme_def deliver_dec_def window_start_def window_increment_def)
  have "sendme_process x cl n oc c =
          (Inr False, ?c0\<lparr>circuit_nodes := Some ns',
                       sent := sent ?c0 @ [Relayed (nested x ks
                         (new_relay_cell CellRelay (Cell CellRelaySendMe (cell_circuit_id cl) NoAttrs) 0
                            (c_id ?c0)))]\<rparr>)"
    using assms(1,2,4) n s(1) by (simp add: sendme_process_def node_at_def)
  then show ?thesis using True s(2,3,4)
    by (simp add: set_window_def router_set_window window_set_window)
next
  case False
  let ?w = "(window (ns ! n))\<lparr>deliver := deliver (window (ns ! n)) - 1\<rparr>"
  have n: "need_sendme (deliver_dec (window (ns ! n))) = (False, ?w)"
    using False by (simp add: need_sendme_def deliver_dec_def window_start_def window_increment_def)
  have "sendme_process x cl n oc c = (Inr False, set_window n ?w c)"
    using assms(1,2,4) n by (simp add: sendme_process_def node_at_def)
  then show ?thesis using False assms(1)
    by (simp add: set_window_def router_set_window window_set_window)
qed

text \<open>
  Claim C3. In \<^verbatim>\<open>_on_stream\<close>, for a cell from node \<open>n\<close>: a \<^verbatim>\<open>RELAY_SENDME\<close> whose
  relay cell has stream-id 0 adds the increment to the package window of \<open>n\<close> and
  returns, touching no stream; a \<^verbatim>\<open>RELAY_DATA\<close> takes one off the deliver window of
  \<open>n\<close>, sends a \<^verbatim>\<open>RELAY_SENDME\<close> with stream-id 0 through the onion layers exactly when
  the window has come down to 900 (which puts the increment back), and goes on to the
  stream lookup by the stream-id of the relay cell.
\<close>

theorem on_stream_flow_control:
  fixes c :: "('ka, 'k) TorCircuit"
  assumes "circuit_nodes c = Some ns" and "n < length ns"
    and "map crypto_state ns = map Some ks"
  shows "(type_of cl = CellRelaySendMe \<and> stream_id oc = 0 \<longrightarrow>
           on_stream x cl n oc c =
             (Inr (), c\<lparr>circuit_nodes := Some (ns[n := (ns ! n)\<lparr>window :=
                           (window (ns ! n))\<lparr>package := package (window (ns ! n)) + 100\<rparr>\<rparr>])\<rparr>))
       \<and> (type_of cl = CellRelayData \<longrightarrow>
           (\<exists>c1 ns1. sendme_process x cl n oc c = (Inr False, c1)
              \<and> circuit_nodes c1 = Some ns1 \<and> length ns1 = length ns
              \<and> map window ns1 = (map window ns)[n := (window (ns ! n))\<lparr>deliver :=
                    (if deliver (window (ns ! n)) - 1 \<le> 900
                     then deliver (window (ns ! n)) - 1 + 100
                     else deliver (window (ns ! n)) - 1)\<rparr>]
              \<and> sent c1 =
                   (if deliver (window (ns ! n)) - 1 \<le> 900 then
                      sent c @ [Relayed (nested x ks
                        (new_relay_cell CellRelay
                           (Cell CellRelaySendMe (cell_circuit_id cl) NoAttrs) 0 (c_id c)))]
                    else sent c)
              \<and> stream_map c1 = stream_map c \<and> logged c1 = logged c
              \<and> on_stream x cl n oc c =
                   (case get_by_id (stream_map c) (stream_id oc) of
                      None \<Rightarrow>
                        (Inr (), c1\<lparr>logged := logged c @
                           [(Warning, ''Stream #%i is already closed or was never opened'')]\<rparr>)
                    | Some s \<Rightarrow>
                        (Inr (), c1\<lparr>stream_map :=
                           stream_handle_cell (stream_id oc) cl (stream_map c)\<rparr>))))"
proof (intro conjI impI)
  assume "type_of cl = CellRelaySendMe \<and> stream_id oc = 0"
  then have "sendme_process x cl n oc c =
      (Inr True, set_window n (package_inc (window (ns ! n))) c)"
    using assms(1,2) by (simp add: sendme_process_def node_at_def)
  then show "on_stream x cl n oc c =
             (Inr (), c\<lparr>circuit_nodes := Some (ns[n := (ns ! n)\<lparr>window :=
                           (window (ns ! n))\<lparr>package := package (window (ns ! n)) + 100\<rparr>\<rparr>])\<rparr>)"
    using assms(1)
    by (simp add: on_stream_def set_window_def package_inc_def window_increment_def)
next
  assume t: "type_of cl = CellRelayData"
  from sendme_process_data [OF assms t, of x oc] obtain c1 ns1 where
    p: "sendme_process x cl n oc c = (Inr False, c1)"
       "circuit_nodes c1 = Some ns1" "length ns1 = length ns"
       "map window ns1 = (map window ns)[n := (window (ns ! n))\<lparr>deliver :=
              (if deliver (window (ns ! n)) - 1 \<le> 900 then deliver (window (ns ! n)) - 1 + 100
               else deliver (window (ns ! n)) - 1)\<rparr>]"
       "sent c1 =
             (if deliver (window (ns ! n)) - 1 \<le> 900 then
                sent c @ [Relayed (nested x ks
                  (new_relay_cell CellRelay (Cell CellRelaySendMe (cell_circuit_id cl) NoAttrs) 0 (c_id c)))]
              else sent c)"
       "stream_map c1 = stream_map c" "logged c1 = logged c"
    by blast
  have "on_stream x cl n oc c =
          (case get_by_id (stream_map c) (stream_id oc) of
             None \<Rightarrow>
               (Inr (), c1\<lparr>logged := logged c @
                  [(Warning, ''Stream #%i is already closed or was never opened'')]\<rparr>)
           | Some s \<Rightarrow>
               (Inr (), c1\<lparr>stream_map := stream_handle_cell (stream_id oc) cl (stream_map c)\<rparr>))"
    using p(1,6,7) by (simp add: on_stream_def logmsg_def split: option.splits)
  with p show "\<exists>c1 ns1. sendme_process x cl n oc c = (Inr False, c1)
              \<and> circuit_nodes c1 = Some ns1 \<and> length ns1 = length ns
              \<and> map window ns1 = (map window ns)[n := (window (ns ! n))\<lparr>deliver :=
                    (if deliver (window (ns ! n)) - 1 \<le> 900
                     then deliver (window (ns ! n)) - 1 + 100
                     else deliver (window (ns ! n)) - 1)\<rparr>]
              \<and> sent c1 =
                   (if deliver (window (ns ! n)) - 1 \<le> 900 then
                      sent c @ [Relayed (nested x ks
                        (new_relay_cell CellRelay
                           (Cell CellRelaySendMe (cell_circuit_id cl) NoAttrs) 0 (c_id c)))]
                    else sent c)
              \<and> stream_map c1 = stream_map c \<and> logged c1 = logged c
              \<and> on_stream x cl n oc c =
                   (case get_by_id (stream_map c) (stream_id oc) of
                      None \<Rightarrow>
                        (Inr (), c1\<lparr>logged := logged c @
                           [(Warning, ''Stream #%i is already closed or was never opened'')]\<rparr>)
                    | Some s \<Rightarrow>
                        (Inr (), c1\<lparr>stream_map :=
                           stream_handle_cell (stream_id oc) cl (stream_map c)\<rparr>))"
    by blast
qed

theorem on_stream_flow_control_witness:
  "circuit_nodes low_window_circuit =
     Some [node_of 1, node_of 2, (node_of 3)\<lparr>window := \<lparr>package = 1000, deliver = 901\<rparr>\<rparr>]
   \<and> map crypto_state [node_of 1, node_of 2, (node_of 3)\<lparr>window := \<lparr>package = 1000, deliver = 901\<rparr>\<rparr>]
       = map Some [1, 2, 3]
   \<and> type_of sendme_cell = CellRelaySendMe \<and> stream_id (from_middle\<lparr>stream_id := 0\<rparr>) = 0
   \<and> on_stream toy sendme_cell 2 (from_middle\<lparr>stream_id := 0\<rparr>) low_window_circuit =
       (Inr (), low_window_circuit\<lparr>circuit_nodes :=
          Some [node_of 1, node_of 2, (node_of 3)\<lparr>window := \<lparr>package = 1100, deliver = 901\<rparr>\<rparr>]\<rparr>)
   \<and> type_of data_cell = CellRelayData
   \<and> (\<exists>c1 ns1. sendme_process toy data_cell 2 from_middle low_window_circuit = (Inr False, c1)
         \<and> circuit_nodes c1 = Some ns1
         \<and> map window ns1 = [TorWindow_init, TorWindow_init, \<lparr>package = 1000, deliver = 1000\<rparr>]
         \<and> sent c1 = [Relayed \<lparr>relay_type = CellRelay, inner_cell = Some sendme_cell, stream_id = 0,
                                 circuit_id = 7, is_encrypted = True, payload = [1, 2, 3]\<rparr>]
         \<and> on_stream toy data_cell 2 from_middle low_window_circuit =
             (Inr (), c1\<lparr>stream_map := [(5, [data_cell])]\<rparr>))"
proof -
  let ?ns = "[node_of 1, node_of 2, (node_of 3)\<lparr>window := \<lparr>package = 1000, deliver = 901\<rparr>\<rparr>]"
  have n: "circuit_nodes low_window_circuit = Some ?ns"
    by (simp add: low_window_circuit_def)
  have l: "2 < length ?ns" by simp
  have k: "map crypto_state ?ns = map Some [1, 2, 3]" by (simp add: node_of_def)
  have s: "type_of sendme_cell = CellRelaySendMe \<and> stream_id (from_middle\<lparr>stream_id := 0\<rparr>) = 0"
    by (simp add: sendme_cell_def)
  have d: "type_of data_cell = CellRelayData" by (simp add: data_cell_def)
  from on_stream_flow_control [OF n l k, of sendme_cell "from_middle\<lparr>stream_id := 0\<rparr>" toy] s
  have 1: "on_stream toy sendme_cell 2 (from_middle\<lparr>stream_id := 0\<rparr>) low_window_circuit =
       (Inr (), low_window_circuit\<lparr>circuit_nodes :=
          Some [node_of 1, node_of 2, (node_of 3)\<lparr>window := \<lparr>package = 1100, deliver = 901\<rparr>\<rparr>]\<rparr>)"
    by (simp add: node_of_def)
  have w: "map window ?ns = [TorWindow_init, TorWindow_init, \<lparr>package = 1000, deliver = 901\<rparr>]"
    by (simp add: node_of_def)
  have m: "nested toy [1, 2, 3]
             (new_relay_cell CellRelay (Cell CellRelaySendMe (cell_circuit_id data_cell) NoAttrs) 0
                (c_id low_window_circuit))
           = \<lparr>relay_type = CellRelay, inner_cell = Some sendme_cell, stream_id = 0,
               circuit_id = 7, is_encrypted = True, payload = [1, 2, 3]\<rparr>"
    by (simp add: nested_def toy_def toy_encrypt_def new_relay_cell_def data_cell_def
          sendme_cell_def low_window_circuit_def connected_circuit_def fresh_circuit_def)
  have g: "get_by_id (stream_map low_window_circuit) (stream_id from_middle) = Some []"
    by (simp add: get_by_id_def low_window_circuit_def connected_circuit_def from_middle_def)
  have h: "stream_handle_cell (stream_id from_middle) data_cell (stream_map low_window_circuit)
             = [(5, [data_cell])]"
    by (simp add: stream_handle_cell_def low_window_circuit_def connected_circuit_def from_middle_def)
  have e: "sent low_window_circuit = []"
    by (simp add: low_window_circuit_def connected_circuit_def fresh_circuit_def)
  from on_stream_flow_control [OF n l k, of data_cell from_middle toy] d
  obtain c1 ns1 where
    p: "sendme_process toy data_cell 2 from_middle low_window_circuit = (Inr False, c1)"
       "circuit_nodes c1 = Some ns1"
       "map window ns1 = (map window ?ns)[2 := (window (?ns ! 2))\<lparr>deliver :=
                    (if deliver (window (?ns ! 2)) - 1 \<le> 900
                     then deliver (window (?ns ! 2)) - 1 + 100
                     else deliver (window (?ns ! 2)) - 1)\<rparr>]"
       "sent c1 =
           (if deliver (window (?ns ! 2)) - 1 \<le> 900 then
              sent low_window_circuit @ [Relayed (nested toy [1, 2, 3]
                (new_relay_cell CellRelay
                   (Cell CellRelaySendMe (cell_circuit_id data_cell) NoAttrs) 0 (c_id low_window_circuit)))]
            else sent low_window_circuit)"
       "on_stream toy data_cell 2 from_middle low_window_circuit =
           (case get_by_id (stream_map low_window_circuit) (stream_id from_middle) of
              None \<Rightarrow>
                (Inr (), c1\<lparr>logged := logged low_window_circuit @
                   [(Warning, ''Stream #%i is already closed or was never opened'')]\<rparr>)
            | Some s \<Rightarrow>
                (Inr (), c1\<lparr>stream_map :=
                   stream_handle_cell (stream_id from_middle) data_cell (stream_map low_window_circuit)\<rparr>))"
    by blast
  have 2: "map window ns1 = [TorWindow_init, TorWindow_init, \<lparr>package = 1000, deliver = 1000\<rparr>]"
    unfolding p(3) w by simp
  have 3: "sent c1 = [Relayed \<lparr>relay_type = CellRelay, inner_cell = Some sendme_cell, stream_id = 0,
                                 circuit_id = 7, is_encrypted = True, payload = [1, 2, 3]\<rparr>]"
    unfolding p(4) m e by simp
  have 4: "on_stream toy data_cell 2 from_middle low_window_circuit =
             (Inr (), c1\<lparr>stream_map := [(5, [data_cell])]\<rparr>)"
    unfolding p(5) g h by simp
  from p(1) p(2) 2 3 4 have ex: "\<exists>c1 ns1. sendme_process toy data_cell 2 from_middle low_window_circuit = (Inr False, c1)
         \<and> circuit_nodes c1 = Some ns1
         \<and> map window ns1 = [TorWindow_init, TorWindow_init, \<lparr>package = 1000, deliver = 1000\<rparr>]
         \<and> sent c1 = [Relayed \<lparr>relay_type = CellRelay, inner_cell = Some sendme_cell, stream_id = 0,
                                 circuit_id = 7, is_encrypted = True, payload = [1, 2, 3]\<rparr>]
         \<and> on_stream toy data_cell 2 from_middle low_window_circuit =
             (Inr (), c1\<lparr>stream_map := [(5, [data_cell])]\<rparr>)"
    by (intro exI [of _ c1] exI [of _ ns1] conjI)
  show ?thesis using n k s 1 d ex by (intro conjI) simp_all
qed

section \<open>Frame properties of the handlers\<close>

lemma recv_frame_refl: "recv_frame c c"
  by (simp add: recv_frame_def)

lemma cb_frame_refl: "cb_frame c c"
  by (simp add: cb_frame_def recv_frame_def)

lemma recv_frame_trans: "recv_frame a b \<Longrightarrow> recv_frame b c \<Longrightarrow> recv_frame a c"
  by (auto simp: recv_frame_def)

lemma cb_frame_trans: "cb_frame a b \<Longrightarrow> cb_frame b c \<Longrightarrow> cb_frame a c"
  by (auto simp: cb_frame_def recv_frame_def)

lemma cb_frame_recv: "cb_frame a b \<Longrightarrow> recv_frame a b"
  by (simp add: cb_frame_def)

lemma cb_frame_logmsg: "cb_frame c (logmsg l m c)"
  by (simp add: cb_frame_def recv_frame_def logmsg_def)

lemma encrypt_loop_router:
  "encrypt_loop x ns rc = (r, ns', rc') \<Longrightarrow> map router ns' = map router ns"
proof (induction ns arbitrary: rc r ns' rc')
  case Nil
  then show ?case by simp
next
  case (Cons n ns)
  then show ?case
    by (auto simp: encrypt_forward_def split: sum.splits prod.splits option.splits)
qed

lemma encrypt_router:
  "encrypt x ns rc = (r, ns', rc') \<Longrightarrow> map router ns' = map router ns"
  by (auto simp: encrypt_def split: if_splits prod.splits
           dest!: encrypt_loop_router intro: map_rev_eq)

lemma send_relay_frame:
  "send_relay x inner rt sid c = (r, c') \<Longrightarrow> cb_frame c c' \<and> state c' = state c"
  by (auto simp: send_relay_def Let_def send_def cb_frame_def recv_frame_def
           split: option.splits prod.splits sum.splits dest!: encrypt_router)

lemma close_stream_frame:
  "close_stream x sid c = (r, c') \<Longrightarrow> cb_frame c c' \<and> state c' = state c"
  by (auto simp: close_stream_def cb_frame_def recv_frame_def
           split: prod.splits sum.splits dest!: send_relay_frame)

lemma close_streams_frame:
  "close_streams x sids c = (r, c') \<Longrightarrow> cb_frame c c' \<and> state c' = state c"
proof (induction sids arbitrary: c)
  case Nil
  then show ?case by (simp add: cb_frame_refl)
next
  case (Cons sid sids)
  show ?case
  proof (cases "close_stream x sid c")
    case (Pair r1 c1)
    then have f: "cb_frame c c1 \<and> state c1 = state c" by (rule close_stream_frame)
    show ?thesis
    proof (cases r1)
      case (Inl e)
      then show ?thesis using Cons.prems Pair f by simp
    next
      case (Inr u)
      then have "close_streams x sids c1 = (r, c')" using Cons.prems Pair by simp
      from Cons.IH [OF this] f show ?thesis by (auto intro: cb_frame_trans)
    qed
  qed
qed

lemma destroy_frame: "destroy x sd c = (r, c') \<Longrightarrow> cb_frame c c'"
  by (auto simp: destroy_def close_all_streams_def send_def logmsg_def cb_frame_def recv_frame_def
           split: if_splits prod.splits sum.splits dest!: close_streams_frame)

lemma set_window_frame: "cb_frame c (set_window n w c) \<and> state (set_window n w c) = state c"
  by (cases "circuit_nodes c")
     (simp_all add: set_window_def cb_frame_def recv_frame_def router_set_window)

lemma sendme_process_frame:
  "sendme_process x cl n oc c = (r, c') \<Longrightarrow> cb_frame c c'"
  by (auto simp: sendme_process_def cb_frame_refl set_window_frame
           split: if_splits option.splits prod.splits sum.splits bool.splits
           dest!: send_relay_frame intro: cb_frame_trans [OF conjunct1 [OF set_window_frame]])

lemma on_stream_frame: "on_stream x cl n oc c = (r, c') \<Longrightarrow> cb_frame c c'"
  by (auto simp: on_stream_def logmsg_def cb_frame_def recv_frame_def
           split: prod.splits sum.splits bool.splits option.splits dest!: sendme_process_frame)

lemma on_stream_end_frame: "on_stream_end x cl n oc c = (r, c') \<Longrightarrow> cb_frame c c'"
  by (auto simp: on_stream_end_def cb_frame_refl split: option.splits dest!: close_stream_frame)

lemma on_truncated_frame: "on_truncated x cl n oc c = (r, c') \<Longrightarrow> cb_frame c c'"
  by (auto simp: on_truncated_def guard_destroy_circuit_def Let_def cb_frame_refl cb_frame_logmsg
           split: option.splits dest!: destroy_frame
           intro: cb_frame_trans [OF cb_frame_logmsg])

lemma invoke_frame: "invoke x cb cl f oc c = (r, c') \<Longrightarrow> cb_frame c c'"
  by (auto simp: invoke_def cb_frame_refl split: option.splits callback.splits
           dest: on_truncated_frame on_stream_end_frame on_stream_frame)

lemma decrypt_loop_router:
  "decrypt_loop x i ns rc f = (r, ns', rc', f', brk) \<Longrightarrow> map router ns' = map router ns"
proof (induction ns arbitrary: i rc f r ns' rc' f' brk)
  case Nil
  then show ?case by simp
next
  case (Cons n ns)
  then show ?case
    by (auto simp: decrypt_backward_def split: if_splits sum.splits prod.splits option.splits)
qed

lemma decrypt_frame: "decrypt x rc c = (r, c') \<Longrightarrow> cb_frame c c'"
  by (auto simp: decrypt_def Let_def logmsg_def cb_frame_def recv_frame_def
           split: if_splits option.splits prod.splits sum.splits dest!: decrypt_loop_router)

lemma handle_loop_frame:
  "handle_loop x cl f oc hs c = (r, c') \<Longrightarrow> recv_frame c c'"
proof (induction hs arbitrary: c)
  case Nil
  then show ?case by (simp add: recv_frame_refl)
next
  case (Cons h hs)
  show ?case
  proof (cases h)
    case (WaiterRef w)
    let ?c1 = "c\<lparr>waiters := (waiters c)(w := Waiter_handler cl (waiters c w))\<rparr>"
    let ?cur = "get_handlers (handlers c) (type_of cl)"
    let ?c2 = "?c1\<lparr>handlers := (handlers ?c1)(type_of cl \<mapsto> remove1 (WaiterRef w) ?cur)\<rparr>"
    have f1: "recv_frame c ?c1" "recv_frame c ?c2" by (simp_all add: recv_frame_def)
    show ?thesis
    proof (cases "WaiterRef w \<in> set ?cur")
      case True
      then have "handle_loop x cl f oc hs ?c2 = (r, c')"
        using Cons.prems WaiterRef by (simp add: Let_def)
      from Cons.IH [OF this] f1(2) show ?thesis by (rule recv_frame_trans [rotated])
    next
      case False
      then have "c' = ?c1" using Cons.prems WaiterRef by (simp add: Let_def)
      then show ?thesis using f1(1) by simp
    qed
  next
    case (Callback cb)
    obtain r1 c1 where i: "invoke x cb cl f oc c = (r1, c1)" by (cases "invoke x cb cl f oc c")
    from invoke_frame [OF i] have f1: "recv_frame c c1" by (rule cb_frame_recv)
    show ?thesis
    proof (cases r1)
      case (Inl e)
      then show ?thesis using Cons.prems Callback i f1 by simp
    next
      case (Inr u)
      then have "handle_loop x cl f oc hs c1 = (r, c')" using Cons.prems Callback i by simp
      from Cons.IH [OF this] f1 show ?thesis by (rule recv_frame_trans [rotated])
    qed
  qed
qed

lemma handle_frame: "handle x cl f oc c = (r, c') \<Longrightarrow> recv_frame c c'"
  by (auto simp: handle_def Let_def logmsg_def recv_frame_def split: if_splits
           dest!: handle_loop_frame)

lemma handle_relay_frame: "handle_relay x rc c = (r, c') \<Longrightarrow> recv_frame c c'"
  by (auto simp: handle_relay_def split: prod.splits sum.splits option.splits
           dest!: decrypt_frame handle_frame cb_frame_recv intro: recv_frame_trans)

lemma recv_one_frame: "recv_frame c (recv_one x a c)"
proof -
  have l: "\<And>c1. recv_frame c c1 \<Longrightarrow> recv_frame c (logmsg Error ''Some handle errors'' c1)"
    by (simp add: recv_frame_def logmsg_def)
  show ?thesis
    by (auto simp: recv_one_def handle_cell_def split: wire.splits prod.splits sum.splits
             dest!: handle_frame handle_relay_frame intro: l)
qed

lemma do_recv_frame: "recv_frame c (do_recv x as c)"
proof (induction as arbitrary: c)
  case Nil
  then show ?case by (simp add: recv_frame_refl)
next
  case (Cons a as)
  show ?case using recv_one_frame [of c x a] Cons [of "recv_one x a c"]
    by (auto intro: recv_frame_trans)
qed

lemma create_waiter_enter_frame:
  "create_waiter_enter ts c = (w, c1) \<Longrightarrow> recv_frame c c1"
  by (auto simp: create_waiter_enter_def Let_def recv_frame_def)

lemma create_waiter_frame:
  assumes "\<And>w c1 r c2. body w c1 = (r, c2) \<Longrightarrow> recv_frame c1 c2"
    and "create_waiter ts body c = (r, c')"
  shows "recv_frame c c'"
proof -
  obtain w c1 where e: "create_waiter_enter ts c = (w, c1)"
    by (cases "create_waiter_enter ts c")
  obtain r2 c2 where b: "body w c1 = (r2, c2)" by (cases "body w c1")
  have "recv_frame c c2"
    using create_waiter_enter_frame [OF e] assms(1) [OF b] by (rule recv_frame_trans)
  moreover have "recv_frame c2 (c2\<lparr>handlers := unsubscribe_for ts (WaiterRef w) (handlers c2)\<rparr>)"
    by (simp add: recv_frame_def)
  ultimately show ?thesis using assms(2) e b
    by (cases r2) (auto simp: create_waiter_def intro: recv_frame_trans)
qed

lemma send_wait_frame: "send_wait x cl ts arrivals c = (r, c') \<Longrightarrow> recv_frame c c'"
proof (unfold send_wait_def, erule create_waiter_frame [rotated])
  fix w c1 r and c2 :: "('a, 'b) TorCircuit"
  assume "(let c2 = do_recv x arrivals (send (Plain cl) c1) in (Waiter_get (waiters c2 w), c2)) = (r, c2)"
  then have "c2 = do_recv x arrivals (send (Plain cl) c1)" by (simp add: Let_def)
  moreover have "recv_frame c1 (send (Plain cl) c1)" by (simp add: send_def recv_frame_def)
  ultimately show "recv_frame c1 c2" using do_recv_frame recv_frame_trans by blast
qed

lemma send_relay_wait_frame:
  "send_relay_wait x inner ts rt sid arrivals c = (r, c') \<Longrightarrow> recv_frame c c'"
proof (unfold send_relay_wait_def, erule create_waiter_frame [rotated])
  fix w c1 r and c2 :: "('a, 'b) TorCircuit"
  assume a: "(case send_relay x inner rt sid c1 of
                (Inl e, c2) \<Rightarrow> (Inl e, c2)
              | (Inr u, c2) \<Rightarrow>
                  (let c3 = do_recv x arrivals c2 in (Waiter_get (waiters c3 w), c3))) = (r, c2)"
  obtain r1 c1' where s: "send_relay x inner rt sid c1 = (r1, c1')"
    by (cases "send_relay x inner rt sid c1")
  from send_relay_frame [OF s] have f: "recv_frame c1 c1'" by (simp add: cb_frame_def)
  show "recv_frame c1 c2"
  proof (cases r1)
    case (Inl e)
    then show ?thesis using a s f by simp
  next
    case (Inr u)
    then have "c2 = do_recv x arrivals c1'" using a s by (simp add: Let_def)
    then show ?thesis using f do_recv_frame recv_frame_trans by blast
  qed
qed

section \<open>Teardown\<close>

lemma destroy_sets_Destroyed:
  "destroy x sd c = (Inr u, c1) \<Longrightarrow> state c1 = Destroyed"
  by (auto simp: destroy_def logmsg_def split: if_splits prod.splits sum.splits)

text \<open>
  Claim C6. \<^verbatim>\<open>destroy\<close> is idempotent. On a circuit that is already Destroyed it
  returns normally and changes nothing but the log, to which it adds one debug line:
  nothing is sent, no stream is closed, the state stays Destroyed. Hence a second call
  after a call that returned is that no-op. On a circuit that is still Unknown it raises
  and leaves the circuit as it was.
\<close>

theorem destroy_idempotent:
  fixes c :: "('ka, 'k) TorCircuit"
  shows "(state c = Destroyed \<longrightarrow>
            destroy x sd c =
              (Inr (), c\<lparr>logged := logged c @ [(Debug, ''#%x circuit has been destroyed already'')]\<rparr>))
       \<and> (\<forall>c1. destroy x sd c = (Inr (), c1) \<longrightarrow>
            (\<exists>c2. destroy x sd' c1 = (Inr (), c2)
                 \<and> c2 = c1\<lparr>logged := logged c1 @ [(Debug, ''#%x circuit has been destroyed already'')]\<rparr>
                 \<and> sent c2 = sent c1 \<and> stream_map c2 = stream_map c1 \<and> state c2 = Destroyed))
       \<and> (state c = Unknown \<longrightarrow>
            destroy x sd c = (Inl (Exception ''#{:x} circuit is not yet connected''), c))"
proof (intro conjI allI impI)
  assume "state c = Destroyed"
  then show "destroy x sd c =
      (Inr (), c\<lparr>logged := logged c @ [(Debug, ''#%x circuit has been destroyed already'')]\<rparr>)"
    by (simp add: destroy_def logmsg_def)
next
  fix c1 :: "('ka, 'k) TorCircuit"
  assume "destroy x sd c = (Inr (), c1)"
  then have d: "state c1 = Destroyed" by (rule destroy_sets_Destroyed)
  then show "\<exists>c2. destroy x sd' c1 = (Inr (), c2)
                 \<and> c2 = c1\<lparr>logged := logged c1 @ [(Debug, ''#%x circuit has been destroyed already'')]\<rparr>
                 \<and> sent c2 = sent c1 \<and> stream_map c2 = stream_map c1 \<and> state c2 = Destroyed"
    by (simp add: destroy_def logmsg_def)
next
  assume "state c = Unknown"
  then show "destroy x sd c = (Inl (Exception ''#{:x} circuit is not yet connected''), c)"
    by (simp add: destroy_def)
qed

theorem destroy_idempotent_witness:
  "state (fresh_circuit\<lparr>state := Destroyed\<rparr>) = Destroyed
   \<and> destroy toy True (fresh_circuit\<lparr>state := Destroyed\<rparr>) =
       (Inr (), fresh_circuit\<lparr>state := Destroyed,
                  logged := [(Debug, ''#%x circuit has been destroyed already'')]\<rparr>)
   \<and> (\<exists>c1. destroy toy True connected_circuit = (Inr (), c1)
         \<and> fst (destroy toy False c1) = Inr ()
         \<and> sent (snd (destroy toy False c1)) = sent c1
         \<and> state (snd (destroy toy False c1)) = Destroyed)
   \<and> state fresh_circuit = Unknown
   \<and> destroy toy True fresh_circuit =
       (Inl (Exception ''#{:x} circuit is not yet connected''), fresh_circuit)"
proof -
  have a: "fst (destroy toy True connected_circuit) = Inr ()"
    by (simp add: eval_defs)
  then obtain c1 where b: "destroy toy True connected_circuit = (Inr (), c1)"
    by (cases "destroy toy True connected_circuit") auto
  have d: "state (fresh_circuit\<lparr>state := Destroyed\<rparr>) = Destroyed" by simp
  have u: "state fresh_circuit = Unknown" by (simp add: fresh_circuit_def)
  from destroy_idempotent [of "fresh_circuit\<lparr>state := Destroyed\<rparr>" toy True] d
  have 1: "destroy toy True (fresh_circuit\<lparr>state := Destroyed\<rparr>) =
       (Inr (), fresh_circuit\<lparr>state := Destroyed,
                  logged := [(Debug, ''#%x circuit has been destroyed already'')]\<rparr>)"
    by (simp add: fresh_circuit_def)
  from destroy_idempotent [of connected_circuit toy True False] b
  obtain c2 where "destroy toy False c1 = (Inr (), c2)" "sent c2 = sent c1" "state c2 = Destroyed"
    by blast
  then have 2: "fst (destroy toy False c1) = Inr () \<and> sent (snd (destroy toy False c1)) = sent c1
     \<and> state (snd (destroy toy False c1)) = Destroyed"
    by simp
  from destroy_idempotent [of fresh_circuit toy True] u
  have 3: "destroy toy True fresh_circuit =
       (Inl (Exception ''#{:x} circuit is not yet connected''), fresh_circuit)"
    by simp
  from b 2 have e: "\<exists>c1. destroy toy True connected_circuit = (Inr (), c1)
         \<and> fst (destroy toy False c1) = Inr ()
         \<and> sent (snd (destroy toy False c1)) = sent c1
         \<and> state (snd (destroy toy False c1)) = Destroyed" by blast
  show ?thesis using d u 1 3 e by blast
qed

section \<open>Hidden-service attachment is idempotent\<close>

lemma try_introductions_assoc:
  "try_introductions hs is c = (True, c1) \<Longrightarrow> associated_hs c1 = Some hs"
  by (induction hs "is" c rule: try_introductions.induct) (auto split: option.splits)

lemma try_responsible_dirs_assoc:
  "try_responsible_dirs hs ds c = (Inr u, c1) \<Longrightarrow> associated_hs c1 = Some hs"
  by (induction hs ds c rule: try_responsible_dirs.induct)
     (auto split: prod.splits bool.splits dir_end.splits dest: try_introductions_assoc)

lemma extend_to_hidden_assoc:
  "extend_to_hidden x hs arr dirs c = (Inr u, c1) \<Longrightarrow>
     \<exists>a. associated_hs c1 = Some a \<and> onion a = onion hs"
  by (auto simp: extend_to_hidden_def logmsg_def
           split: option.splits if_splits prod.splits sum.splits
           dest: try_responsible_dirs_assoc)

text \<open>
  Claim C7. \<^verbatim>\<open>extend_to_hidden\<close> on a circuit already associated with a hidden service
  of the same onion returns at once: nothing is sent, no rendezvous is established and
  the circuit is as before but for one debug line. Associated with a different onion, it
  raises and leaves the circuit unchanged. Hence a second call with the same onion, after
  a call that returned, is equivalent to none.
\<close>

theorem extend_to_hidden_idempotent:
  fixes c :: "('ka, 'k) TorCircuit"
  shows "(\<forall>a. associated_hs c = Some a \<and> onion a = onion hs \<longrightarrow>
            extend_to_hidden x hs arr dirs c =
              (Inr (), c\<lparr>logged := logged c @ [(Debug, ''Circuit #%x already associated with %s'')]\<rparr>))
       \<and> (\<forall>a. associated_hs c = Some a \<and> onion a \<noteq> onion hs \<longrightarrow>
            extend_to_hidden x hs arr dirs c =
              (Inl (Exception
                 ''It's not possible associate one circuit to more then one hidden service''), c))
       \<and> (\<forall>c1. extend_to_hidden x hs arr dirs c = (Inr (), c1) \<longrightarrow>
            extend_to_hidden x hs arr' dirs' c1 =
              (Inr (), c1\<lparr>logged := logged c1 @ [(Debug, ''Circuit #%x already associated with %s'')]\<rparr>))"
proof (intro conjI allI impI)
  fix a assume "associated_hs c = Some a \<and> onion a = onion hs"
  then show "extend_to_hidden x hs arr dirs c =
      (Inr (), c\<lparr>logged := logged c @ [(Debug, ''Circuit #%x already associated with %s'')]\<rparr>)"
    by (simp add: extend_to_hidden_def logmsg_def)
next
  fix a assume "associated_hs c = Some a \<and> onion a \<noteq> onion hs"
  then show "extend_to_hidden x hs arr dirs c =
      (Inl (Exception
         ''It's not possible associate one circuit to more then one hidden service''), c)"
    by (simp add: extend_to_hidden_def)
next
  fix c1 :: "('ka, 'k) TorCircuit"
  assume "extend_to_hidden x hs arr dirs c = (Inr (), c1)"
  then obtain a where "associated_hs c1 = Some a" "onion a = onion hs"
    using extend_to_hidden_assoc by blast
  then show "extend_to_hidden x hs arr' dirs' c1 =
      (Inr (), c1\<lparr>logged := logged c1 @ [(Debug, ''Circuit #%x already associated with %s'')]\<rparr>)"
    by (simp add: extend_to_hidden_def logmsg_def)
qed

theorem extend_to_hidden_idempotent_witness:
  "(\<exists>c1. extend_to_hidden toy onion_a [rend_reply]
            [([], DescriptorNotAvailable), ([ConnectRaises, ConnectReturns (node_of 4)], DirExhausted)]
            connected_circuit = (Inr (), c1)
        \<and> extend_to_hidden toy onion_a [] [] c1 =
            (Inr (), c1\<lparr>logged := logged c1 @ [(Debug, ''Circuit #%x already associated with %s'')]\<rparr>))
   \<and> associated_hs (connected_circuit\<lparr>associated_hs := Some onion_a\<rparr>) = Some onion_a
   \<and> onion onion_a \<noteq> onion onion_b
   \<and> extend_to_hidden toy onion_a [] [] (connected_circuit\<lparr>associated_hs := Some onion_a\<rparr>) =
       (Inr (), connected_circuit\<lparr>associated_hs := Some onion_a,
                  logged := logged (connected_circuit\<lparr>associated_hs := Some onion_a\<rparr>)
                            @ [(Debug, ''Circuit #%x already associated with %s'')]\<rparr>)
   \<and> extend_to_hidden toy onion_b [] [] (connected_circuit\<lparr>associated_hs := Some onion_a\<rparr>) =
       (Inl (Exception
          ''It's not possible associate one circuit to more then one hidden service''),
        connected_circuit\<lparr>associated_hs := Some onion_a\<rparr>)"
proof -
  have "fst (extend_to_hidden toy onion_a [rend_reply]
            [([], DescriptorNotAvailable), ([ConnectRaises, ConnectReturns (node_of 4)], DirExhausted)]
            connected_circuit) = Inr ()"
    by (simp add: extend_to_hidden_def rendezvous_establish_def onion_a_def rend_reply_def
          inbound_def wait_defs recv_defs eval_defs)
  then obtain c1 where b: "extend_to_hidden toy onion_a [rend_reply]
            [([], DescriptorNotAvailable), ([ConnectRaises, ConnectReturns (node_of 4)], DirExhausted)]
            connected_circuit = (Inr (), c1)"
    by (cases "extend_to_hidden toy onion_a [rend_reply]
            [([], DescriptorNotAvailable), ([ConnectRaises, ConnectReturns (node_of 4)], DirExhausted)]
            connected_circuit") auto
  from extend_to_hidden_idempotent [of connected_circuit onion_a toy "[rend_reply]"
      "[([], DescriptorNotAvailable), ([ConnectRaises, ConnectReturns (node_of 4)], DirExhausted)]"
      "[]" "[]"] b
  have 1: "extend_to_hidden toy onion_a [] [] c1 =
            (Inr (), c1\<lparr>logged := logged c1 @ [(Debug, ''Circuit #%x already associated with %s'')]\<rparr>)"
    by blast
  have a: "associated_hs (connected_circuit\<lparr>associated_hs := Some onion_a\<rparr>) = Some onion_a"
    by simp
  have n: "onion onion_a \<noteq> onion onion_b" by (simp add: onion_a_def onion_b_def)
  from extend_to_hidden_idempotent
         [of "connected_circuit\<lparr>associated_hs := Some onion_a\<rparr>" onion_a toy "[]" "[]"] a
  have 2: "extend_to_hidden toy onion_a [] [] (connected_circuit\<lparr>associated_hs := Some onion_a\<rparr>) =
       (Inr (), connected_circuit\<lparr>associated_hs := Some onion_a,
                  logged := logged (connected_circuit\<lparr>associated_hs := Some onion_a\<rparr>)
                            @ [(Debug, ''Circuit #%x already associated with %s'')]\<rparr>)"
    by simp
  from extend_to_hidden_idempotent
         [of "connected_circuit\<lparr>associated_hs := Some onion_a\<rparr>" onion_b toy "[]" "[]"] a n
  have 3: "extend_to_hidden toy onion_b [] [] (connected_circuit\<lparr>associated_hs := Some onion_a\<rparr>) =
       (Inl (Exception
          ''It's not possible associate one circuit to more then one hidden service''),
        connected_circuit\<lparr>associated_hs := Some onion_a\<rparr>)"
    by simp
  from b 1 have e: "\<exists>c1. extend_to_hidden toy onion_a [rend_reply]
            [([], DescriptorNotAvailable), ([ConnectRaises, ConnectReturns (node_of 4)], DirExhausted)]
            connected_circuit = (Inr (), c1)
        \<and> extend_to_hidden toy onion_a [] [] c1 =
            (Inr (), c1\<lparr>logged := logged c1 @ [(Debug, ''Circuit #%x already associated with %s'')]\<rparr>)"
    by blast
  show ?thesis using e a n 2 3 by blast
qed

section \<open>One-shot waiters in the registry\<close>











section \<open>The scope of a waiter\<close>

lemma create_waiter_exception:
  "create_waiter_enter ts c = (w, c1) \<Longrightarrow> body w c1 = (Inl e, c2) \<Longrightarrow>
   create_waiter ts body c = (Inl e, c2)"
  by (simp add: create_waiter_def)

text \<open>
  Claim C2, evaluated. \<^verbatim>\<open>_send_wait\<close> for \<^verbatim>\<open>CellCreated2\<close> on a new circuit with no
  reply arriving: \<^verbatim>\<open>get\<close> raises \<^verbatim>\<open>CellTimeoutError\<close> and the waiter is still in the
  registry afterwards. With the reply arriving, the call returns and the registry list
  is empty.
\<close>

theorem create_waiter_leaks_on_timeout:
  "fst (send_wait toy create2_cell (One CellCreated2) [] fresh_circuit)
     = Inl (CellTimeoutError ''Timeout wait for CellCreated2'')
   \<and> get_handlers (handlers (snd (send_wait toy create2_cell (One CellCreated2) [] fresh_circuit)))
        CellCreated2 = [WaiterRef 0]
   \<and> fst (send_wait toy create2_cell (One CellCreated2) [Plain created2_cell] fresh_circuit)
     = Inr (Some created2_cell)
   \<and> get_handlers (handlers (snd (send_wait toy create2_cell (One CellCreated2) [Plain created2_cell]
        fresh_circuit))) CellCreated2 = []"
  by (simp add: create2_cell_def created2_cell_def wait_defs recv_defs eval_defs)

section \<open>Stream-level SENDME\<close>

text \<open>
  Claim C10. A \<^verbatim>\<open>RELAY_SENDME\<close> whose relay cell has a stream-id other than 0 is not
  flow control of the circuit: \<^verbatim>\<open>_sendme_process\<close> leaves the circuit as it is, so no
  window changes and nothing is sent, and \<^verbatim>\<open>_on_stream\<close> hands the cell to the stream of
  that id, or logs a warning and drops it when there is no such stream.
\<close>

theorem stream_sendme_forwarded:
  fixes c :: "('ka, 'k) TorCircuit"
  shows "type_of cl = CellRelaySendMe \<and> stream_id oc \<noteq> 0 \<longrightarrow>
           sendme_process x cl n oc c = (Inr False, c)
         \<and> on_stream x cl n oc c =
             (case get_by_id (stream_map c) (stream_id oc) of
                None \<Rightarrow>
                  (Inr (), c\<lparr>logged := logged c @
                     [(Warning, ''Stream #%i is already closed or was never opened'')]\<rparr>)
              | Some s \<Rightarrow>
                  (Inr (), c\<lparr>stream_map := stream_handle_cell (stream_id oc) cl (stream_map c)\<rparr>))
         \<and> circuit_nodes (snd (on_stream x cl n oc c)) = circuit_nodes c
         \<and> sent (snd (on_stream x cl n oc c)) = sent c
         \<and> (\<forall>s. get_by_id (stream_map c) (stream_id oc) = Some s \<longrightarrow>
               get_by_id (stream_map (snd (on_stream x cl n oc c))) (stream_id oc) = Some (s @ [cl])
             \<and> (\<forall>j. j \<noteq> stream_id oc \<longrightarrow>
                   get_by_id (stream_map (snd (on_stream x cl n oc c))) j = get_by_id (stream_map c) j))"
proof (intro impI)
  assume h: "type_of cl = CellRelaySendMe \<and> stream_id oc \<noteq> 0"
  then have p: "sendme_process x cl n oc c = (Inr False, c)"
    by (simp add: sendme_process_def)
  then have o: "on_stream x cl n oc c =
             (case get_by_id (stream_map c) (stream_id oc) of
                None \<Rightarrow>
                  (Inr (), c\<lparr>logged := logged c @
                     [(Warning, ''Stream #%i is already closed or was never opened'')]\<rparr>)
              | Some s \<Rightarrow>
                  (Inr (), c\<lparr>stream_map := stream_handle_cell (stream_id oc) cl (stream_map c)\<rparr>))"
    by (simp add: on_stream_def logmsg_def split: option.splits)
  have "circuit_nodes (snd (on_stream x cl n oc c)) = circuit_nodes c"
       "sent (snd (on_stream x cl n oc c)) = sent c"
    by (simp_all add: o split: option.splits)
  moreover have "\<forall>s. get_by_id (stream_map c) (stream_id oc) = Some s \<longrightarrow>
               get_by_id (stream_map (snd (on_stream x cl n oc c))) (stream_id oc) = Some (s @ [cl])
             \<and> (\<forall>j. j \<noteq> stream_id oc \<longrightarrow>
                   get_by_id (stream_map (snd (on_stream x cl n oc c))) j = get_by_id (stream_map c) j)"
    by (simp add: o get_by_id_stream_handle_cell)
  ultimately show "sendme_process x cl n oc c = (Inr False, c)
         \<and> on_stream x cl n oc c =
             (case get_by_id (stream_map c) (stream_id oc) of
                None \<Rightarrow>
                  (Inr (), c\<lparr>logged := logged c @
                     [(Warning, ''Stream #%i is already closed or was never opened'')]\<rparr>)
              | Some s \<Rightarrow>
                  (Inr (), c\<lparr>stream_map := stream_handle_cell (stream_id oc) cl (stream_map c)\<rparr>))
         \<and> circuit_nodes (snd (on_stream x cl n oc c)) = circuit_nodes c
         \<and> sent (snd (on_stream x cl n oc c)) = sent c
         \<and> (\<forall>s. get_by_id (stream_map c) (stream_id oc) = Some s \<longrightarrow>
               get_by_id (stream_map (snd (on_stream x cl n oc c))) (stream_id oc) = Some (s @ [cl])
             \<and> (\<forall>j. j \<noteq> stream_id oc \<longrightarrow>
                   get_by_id (stream_map (snd (on_stream x cl n oc c))) j = get_by_id (stream_map c) j))"
    using p o by blast
qed

theorem stream_sendme_forwarded_witness:
  "type_of sendme_cell = CellRelaySendMe \<and> stream_id from_middle \<noteq> 0
   \<and> get_by_id (stream_map connected_circuit) (stream_id from_middle) = Some []
   \<and> on_stream toy sendme_cell 1 from_middle connected_circuit =
       (Inr (), connected_circuit\<lparr>stream_map := [(5, [sendme_cell])]\<rparr>)
   \<and> on_stream toy sendme_cell 1 (from_middle\<lparr>stream_id := 6\<rparr>) connected_circuit =
       (Inr (), connected_circuit\<lparr>logged :=
          [(Warning, ''Stream #%i is already closed or was never opened'')]\<rparr>)"
proof -
  have s: "type_of sendme_cell = CellRelaySendMe \<and> stream_id from_middle \<noteq> 0"
    by (simp add: sendme_cell_def from_middle_def)
  have s6: "type_of sendme_cell = CellRelaySendMe \<and> stream_id (from_middle\<lparr>stream_id := 6\<rparr>) \<noteq> 0"
    by (simp add: sendme_cell_def)
  have g: "get_by_id (stream_map connected_circuit) (stream_id from_middle) = Some []"
    by (simp add: get_by_id_def connected_circuit_def from_middle_def)
  have g6: "get_by_id (stream_map connected_circuit) (stream_id (from_middle\<lparr>stream_id := 6\<rparr>)) = None"
    by (simp add: get_by_id_def connected_circuit_def)
  have h: "stream_handle_cell (stream_id from_middle) sendme_cell (stream_map connected_circuit)
             = [(5, [sendme_cell])]"
    by (simp add: stream_handle_cell_def connected_circuit_def from_middle_def)
  have e: "logged connected_circuit = []"
    by (simp add: connected_circuit_def fresh_circuit_def)
  from stream_sendme_forwarded [of sendme_cell from_middle toy 1 connected_circuit] s
  have "on_stream toy sendme_cell 1 from_middle connected_circuit =
             (case get_by_id (stream_map connected_circuit) (stream_id from_middle) of
                None \<Rightarrow>
                  (Inr (), connected_circuit\<lparr>logged := logged connected_circuit @
                     [(Warning, ''Stream #%i is already closed or was never opened'')]\<rparr>)
              | Some s \<Rightarrow>
                  (Inr (), connected_circuit\<lparr>stream_map :=
                     stream_handle_cell (stream_id from_middle) sendme_cell (stream_map connected_circuit)\<rparr>))"
    by blast
  then have 1: "on_stream toy sendme_cell 1 from_middle connected_circuit =
       (Inr (), connected_circuit\<lparr>stream_map := [(5, [sendme_cell])]\<rparr>)"
    unfolding g h by simp
  from stream_sendme_forwarded [of sendme_cell "from_middle\<lparr>stream_id := 6\<rparr>" toy 1 connected_circuit] s6
  have "on_stream toy sendme_cell 1 (from_middle\<lparr>stream_id := 6\<rparr>) connected_circuit =
             (case get_by_id (stream_map connected_circuit) (stream_id (from_middle\<lparr>stream_id := 6\<rparr>)) of
                None \<Rightarrow>
                  (Inr (), connected_circuit\<lparr>logged := logged connected_circuit @
                     [(Warning, ''Stream #%i is already closed or was never opened'')]\<rparr>)
              | Some s \<Rightarrow>
                  (Inr (), connected_circuit\<lparr>stream_map :=
                     stream_handle_cell (stream_id (from_middle\<lparr>stream_id := 6\<rparr>)) sendme_cell
                       (stream_map connected_circuit)\<rparr>))"
    by blast
  then have 2: "on_stream toy sendme_cell 1 (from_middle\<lparr>stream_id := 6\<rparr>) connected_circuit =
       (Inr (), connected_circuit\<lparr>logged :=
          [(Warning, ''Stream #%i is already closed or was never opened'')]\<rparr>)"
    unfolding g6 e by simp
  show ?thesis using s g 1 2 by blast
qed

section \<open>A relay cell that no hop recognises\<close>

text \<open>
  Claim C9, as the code has it. \<^verbatim>\<open>RelayedTorCell.get_decrypted\<close> refuses a cell that is
  still encrypted: it raises. When the cell is still encrypted after every node has
  removed its layer, \<^verbatim>\<open>_decrypt\<close> has run through all nodes without a warning and ends
  in that exception, which leaves \<^verbatim>\<open>handle_relay\<close> before the dispatch: no handler, waiter
  or stream sees the cell and nothing is sent. \<^verbatim>\<open>_do_recv\<close> catches the exception, logs
  it at error level and goes on with the next cell, so the cell is dropped and the
  failure is not fatal to the receive path. The log line is an error, not a warning.
\<close>

theorem unrecognised_cell:
  fixes c :: "('ka, 'k) TorCircuit"
  assumes "circuit_nodes c = Some ns" and "map crypto_state ns = map Some ks" and "ns \<noteq> []"
    and "\<forall>i\<le>length ns. is_encrypted (peeled x (take i ks) rc)"
    and "\<forall>r. is_encrypted r \<longrightarrow> (\<exists>e. get_decrypted x r = Inl e)"
  shows "\<exists>e ns'. map router ns' = map router ns
       \<and> decrypt x rc c = (Inl e, c\<lparr>circuit_nodes := Some ns'\<rparr>)
       \<and> handle_relay x rc c = (Inl e, c\<lparr>circuit_nodes := Some ns'\<rparr>)
       \<and> recv_one x (Relayed rc) c =
            c\<lparr>circuit_nodes := Some ns', logged := logged c @ [(Error, ''Some handle errors'')]\<rparr>
       \<and> do_recv x (Relayed rc # rest) c = do_recv x rest (recv_one x (Relayed rc) c)
       \<and> stream_map (recv_one x (Relayed rc) c) = stream_map c
       \<and> handlers (recv_one x (Relayed rc) c) = handlers c
       \<and> waiters (recv_one x (Relayed rc) c) = waiters c
       \<and> sent (recv_one x (Relayed rc) c) = sent c
       \<and> state (recv_one x (Relayed rc) c) = state c"
proof -
  have e: "is_encrypted rc" using assms(4) by (auto simp: peeled_def dest: spec [of _ 0])
  have "\<forall>i<length ns. is_encrypted (peeled x (take i ks) rc)" using assms(4) by simp
  from decrypt_loop_unrecognised [OF assms(2) this, of 0 None] assms(3) obtain ns' where
    l: "decrypt_loop x 0 ns rc None = (Inr (), ns', peeled x ks rc, Some (length ns - 1), False)"
       "map router ns' = map router ns"
    by auto
  have "length ks = length ns" using assms(2) by (metis length_map)
  then have "is_encrypted (peeled x ks rc)" using assms(4) by (auto dest: spec [of _ "length ns"])
  with assms(5) obtain er where g: "get_decrypted x (peeled x ks rc) = Inl er" by blast
  let ?c1 = "c\<lparr>circuit_nodes := Some ns'\<rparr>"
  have d: "decrypt x rc c = (Inl er, ?c1)"
    using e assms(1) l(1) g by (simp add: decrypt_def Let_def)
  have h: "handle_relay x rc c = (Inl er, ?c1)"
    by (simp add: handle_relay_def d)
  have r: "recv_one x (Relayed rc) c =
            c\<lparr>circuit_nodes := Some ns', logged := logged c @ [(Error, ''Some handle errors'')]\<rparr>"
    by (simp add: recv_one_def h logmsg_def)
  have "do_recv x (Relayed rc # rest) c = do_recv x rest (recv_one x (Relayed rc) c)" by simp
  moreover have "stream_map (recv_one x (Relayed rc) c) = stream_map c"
    "handlers (recv_one x (Relayed rc) c) = handlers c"
    "waiters (recv_one x (Relayed rc) c) = waiters c"
    "sent (recv_one x (Relayed rc) c) = sent c"
    "state (recv_one x (Relayed rc) c) = state c"
    by (simp_all add: r)
  ultimately show ?thesis using l(2) d h r by blast
qed

theorem unrecognised_cell_witness:
  "circuit_nodes connected_circuit = Some [node_of 1, node_of 2, node_of 3]
   \<and> map crypto_state [node_of 1, node_of 2, node_of 3] = map Some [1, 2, 3]
   \<and> is_encrypted (peeled toy (take 0 [1, 2, 3]) unrecognised)
   \<and> is_encrypted (peeled toy (take 1 [1, 2, 3]) unrecognised)
   \<and> is_encrypted (peeled toy (take 2 [1, 2, 3]) unrecognised)
   \<and> is_encrypted (peeled toy (take 3 [1, 2, 3]) unrecognised)
   \<and> get_decrypted toy unrecognised = Inl (AssertionError ''cell must be decrypted'')
   \<and> fst (handle_relay toy unrecognised connected_circuit) = Inl (AssertionError ''cell must be decrypted'')
   \<and> stream_map (recv_one toy (Relayed unrecognised) connected_circuit) = [(5, [])]
   \<and> handlers (recv_one toy (Relayed unrecognised) connected_circuit) = created_handlers
   \<and> sent (recv_one toy (Relayed unrecognised) connected_circuit) = []
   \<and> logged (recv_one toy (Relayed unrecognised) connected_circuit) = [(Error, ''Some handle errors'')]"
proof -
  let ?ns = "[node_of 1, node_of 2, node_of 3]"
  have n: "circuit_nodes connected_circuit = Some ?ns" by (simp add: connected_circuit_def)
  have k: "map crypto_state ?ns = map Some [1, 2, 3]" by (simp add: node_of_def)
  have ne: "?ns \<noteq> []" by simp
  have p: "\<And>ks. 4 \<notin> set ks \<Longrightarrow> peeled toy ks unrecognised = unrecognised"
  proof -
    fix ks :: "nat list" assume "4 \<notin> set ks"
    then show "peeled toy ks unrecognised = unrecognised"
      by (induction ks) (auto simp: peeled_def toy_def toy_decrypt_def unrecognised_def)
  qed
  have m: "\<And>i. 4 \<notin> set (take i [1, 2, 3::nat])"
    by (auto dest: in_set_takeD)
  have u: "is_encrypted unrecognised" by (simp add: unrecognised_def)
  have a: "\<forall>i\<le>length ?ns. is_encrypted (peeled toy (take i [1, 2, 3]) unrecognised)"
    using p [OF m] u by simp
  have asserts: "\<forall>r. is_encrypted r \<longrightarrow> (\<exists>e. get_decrypted toy r = Inl e)"
    by (simp add: toy_def toy_get_decrypted_def)
  have g: "get_decrypted toy unrecognised = Inl (AssertionError ''cell must be decrypted'')"
    by (simp add: toy_def toy_get_decrypted_def unrecognised_def)
  have p3: "peeled toy [1, 2, 3] unrecognised = unrecognised" by (rule p) simp
  from unrecognised_cell [OF n k ne a asserts, of "[]"] obtain e ns' where
    t: "decrypt toy unrecognised connected_circuit = (Inl e, connected_circuit\<lparr>circuit_nodes := Some ns'\<rparr>)"
       "handle_relay toy unrecognised connected_circuit = (Inl e, connected_circuit\<lparr>circuit_nodes := Some ns'\<rparr>)"
       "recv_one toy (Relayed unrecognised) connected_circuit =
            connected_circuit\<lparr>circuit_nodes := Some ns',
              logged := logged connected_circuit @ [(Error, ''Some handle errors'')]\<rparr>"
    by blast
  have "fst (decrypt toy unrecognised connected_circuit) = Inl (AssertionError ''cell must be decrypted'')"
    by (simp add: unrecognised_def data_cell_def recv_defs eval_defs Let_def)
  with t(1) have e: "e = AssertionError ''cell must be decrypted''" by simp
  have 1: "fst (handle_relay toy unrecognised connected_circuit) = Inl (AssertionError ''cell must be decrypted'')"
    using t(2) e by simp
  have 2: "stream_map (recv_one toy (Relayed unrecognised) connected_circuit) = [(5, [])]"
    "handlers (recv_one toy (Relayed unrecognised) connected_circuit) = created_handlers"
    "sent (recv_one toy (Relayed unrecognised) connected_circuit) = []"
    "logged (recv_one toy (Relayed unrecognised) connected_circuit) = [(Error, ''Some handle errors'')]"
    unfolding t(3) by (simp_all add: connected_circuit_def fresh_circuit_def)
  have a0: "is_encrypted (peeled toy (take 0 [1, 2, 3]) unrecognised)"
    and a1: "is_encrypted (peeled toy (take 1 [1, 2, 3]) unrecognised)"
    and a2: "is_encrypted (peeled toy (take 2 [1, 2, 3]) unrecognised)"
    and a3: "is_encrypted (peeled toy (take 3 [1, 2, 3]) unrecognised)"
    by (simp_all only: p [OF m] u)
  show ?thesis using n k a0 a1 a2 a3 g 1 2 by (intro conjI)
qed

text \<open>
  On the toy instance the unrecognised cell makes \<^verbatim>\<open>handle_relay\<close> raise; the circuit
  has logged nothing by then, and after \<^verbatim>\<open>_do_recv\<close> the log holds the one error line
  and no warning.
\<close>

theorem unrecognised_not_warned:
  "is_encrypted (peeled toy [1, 2, 3] unrecognised)
   \<and> fst (handle_relay toy unrecognised connected_circuit) = Inl (AssertionError ''cell must be decrypted'')
   \<and> logged (snd (handle_relay toy unrecognised connected_circuit)) = []
   \<and> logged connected_circuit = []
   \<and> logged (do_recv toy [Relayed unrecognised] connected_circuit) = [(Error, ''Some handle errors'')]"
  by (simp add: unrecognised_def data_cell_def peeled_def wait_defs recv_defs eval_defs Let_def)

section \<open>The state only moves forward\<close>

lemma recv_frame_rank: "recv_frame c c' \<Longrightarrow> state_rank (state c) \<le> state_rank (state c')"
  by (simp add: recv_frame_def)

lemma initialize_frame: "initialize x r arrivals c = (res, c') \<Longrightarrow> recv_frame c c'"
  by (auto simp: initialize_def recv_frame_refl
           split: sum.splits prod.splits option.splits dest!: send_wait_frame)

lemma create_rank:
  "create x g arrivals c = (res, c') \<Longrightarrow> state_rank (state c) \<le> state_rank (state c')"
  by (auto simp: create_def split: if_splits prod.splits sum.splits
           dest!: initialize_frame recv_frame_rank)

lemma create_returns:
  "create x g arrivals c = (Inr u, c') \<Longrightarrow> state c = Unknown \<and> state c' = Connected"
  by (auto simp: create_def split: if_splits prod.splits sum.splits)

lemma extend_rank:
  "extend x r ht arrivals c = (res, c') \<Longrightarrow> state_rank (state c) \<le> state_rank (state c')"
  by (auto simp: extend_def split: if_splits prod.splits sum.splits option.splits
           dest!: send_relay_wait_frame recv_frame_rank)

lemma try_introductions_state:
  "try_introductions hs is c = (b, c') \<Longrightarrow> state c' = state c"
  by (induction hs "is" c rule: try_introductions.induct)
     (auto simp: logmsg_def split: option.splits)

lemma try_responsible_dirs_state:
  "try_responsible_dirs hs ds c = (res, c') \<Longrightarrow> state c' = state c"
  by (induction hs ds c rule: try_responsible_dirs.induct)
     (auto split: prod.splits bool.splits dir_end.splits dest: try_introductions_state)

lemma rendezvous_establish_frame:
  "rendezvous_establish x cookie arrivals c = (res, c') \<Longrightarrow> recv_frame c c'"
  by (auto simp: rendezvous_establish_def recv_frame_refl
           split: if_splits prod.splits sum.splits dest!: send_relay_wait_frame)

lemma extend_to_hidden_rank:
  "extend_to_hidden x hs arrivals dirs c = (res, c') \<Longrightarrow>
   state_rank (state c) \<le> state_rank (state c')"
  by (auto simp: extend_to_hidden_def logmsg_def
           split: option.splits if_splits prod.splits sum.splits
           dest!: rendezvous_establish_frame recv_frame_rank try_responsible_dirs_state)

lemma run_op_rank:
  "run_op x op c = (res, c') \<Longrightarrow> state_rank (state c) \<le> state_rank (state c')"
proof (cases op)
  case (OpCreate g arrivals)
  then show "run_op x op c = (res, c') \<Longrightarrow> ?thesis" by (auto dest: create_rank)
next
  case (OpDestroy sd)
  then show "run_op x op c = (res, c') \<Longrightarrow> ?thesis"
    by (auto dest!: destroy_frame cb_frame_recv recv_frame_rank)
next
  case (OpExtend r ht arrivals)
  then show "run_op x op c = (res, c') \<Longrightarrow> ?thesis" by (auto dest: extend_rank)
next
  case (OpExtendToHidden hs arrivals dirs)
  then show "run_op x op c = (res, c') \<Longrightarrow> ?thesis" by (auto dest: extend_to_hidden_rank)
next
  case (OpHandleCell cl)
  then show "run_op x op c = (res, c') \<Longrightarrow> ?thesis"
    by (auto simp: handle_cell_def dest!: handle_frame recv_frame_rank)
next
  case (OpHandleRelay rc)
  then show "run_op x op c = (res, c') \<Longrightarrow> ?thesis"
    by (auto dest!: handle_relay_frame recv_frame_rank)
next
  case (OpReceive arrivals)
  then show "run_op x op c = (res, c') \<Longrightarrow> ?thesis"
    using recv_frame_rank [OF do_recv_frame] by auto
next
  case (OpCloseStream sid)
  then show "run_op x op c = (res, c') \<Longrightarrow> ?thesis"
    by (auto dest!: close_stream_frame)
next
  case OpCloseAllStreams
  then show "run_op x op c = (res, c') \<Longrightarrow> ?thesis"
    by (auto simp: close_all_streams_def dest!: close_streams_frame)
qed

lemma run_ops_rank: "state_rank (state c) \<le> state_rank (state (run_ops x ops c))"
proof (induction ops arbitrary: c)
  case Nil
  then show ?case by simp
next
  case (Cons op ops)
  have "state_rank (state c) \<le> state_rank (state (snd (run_op x op c)))"
    by (rule run_op_rank [of x op c "fst (run_op x op c)"]) simp
  with Cons [of "snd (run_op x op c)"] show ?case by simp
qed

lemma rank_Destroyed: "state_rank Destroyed \<le> state_rank s \<Longrightarrow> s = Destroyed"
  by (cases s) simp_all

text \<open>
  Claim C5. No operation moves the state backwards in the order Unknown, Connected,
  Destroyed, whatever it returns or raises, so over any sequence of operations the state
  never goes back and a Destroyed circuit stays Destroyed. \<^verbatim>\<open>create\<close> is rejected in any
  state but Unknown and, when it returns, has taken the circuit from Unknown to
  Connected; \<^verbatim>\<open>destroy\<close>, when it returns, leaves the circuit Destroyed.
\<close>

theorem state_moves_forward:
  fixes c :: "('ka, 'k) TorCircuit"
  shows "(\<forall>r c'. run_op x op c = (r, c') \<longrightarrow> state_rank (state c) \<le> state_rank (state c'))
       \<and> state_rank (state c) \<le> state_rank (state (run_ops x ops c))
       \<and> (state c = Destroyed \<longrightarrow> state (run_ops x ops c) = Destroyed)
       \<and> (state c \<noteq> Unknown \<longrightarrow>
            create x g arrivals c = (Inl (AssertionError ''Circuit already connected''), c))
       \<and> (\<forall>c'. create x g arrivals c = (Inr (), c') \<longrightarrow> state c = Unknown \<and> state c' = Connected)
       \<and> (\<forall>c'. destroy x sd c = (Inr (), c') \<longrightarrow> state c' = Destroyed)"
proof (intro conjI allI impI)
  fix r c' assume "run_op x op c = (r, c')"
  then show "state_rank (state c) \<le> state_rank (state c')" by (rule run_op_rank)
next
  show "state_rank (state c) \<le> state_rank (state (run_ops x ops c))" by (rule run_ops_rank)
next
  assume "state c = Destroyed"
  then have "state_rank Destroyed \<le> state_rank (state (run_ops x ops c))"
    using run_ops_rank [of c x ops] by simp
  then show "state (run_ops x ops c) = Destroyed" by (rule rank_Destroyed)
next
  assume "state c \<noteq> Unknown"
  then show "create x g arrivals c = (Inl (AssertionError ''Circuit already connected''), c)"
    by (simp add: create_def)
next
  fix c' assume "create x g arrivals c = (Inr (), c')"
  then show "state c = Unknown" "state c' = Connected" by (auto dest: create_returns)
next
  fix c' assume "destroy x sd c = (Inr (), c')"
  then show "state c' = Destroyed" by (rule destroy_sets_Destroyed)
qed

theorem state_moves_forward_witness:
  "state fresh_circuit = Unknown
   \<and> fst (create toy 0 [Plain created2_cell] fresh_circuit) = Inr ()
   \<and> state (snd (create toy 0 [Plain created2_cell] fresh_circuit)) = Connected
   \<and> state connected_circuit \<noteq> Unknown
   \<and> create toy 0 [] connected_circuit =
       (Inl (AssertionError ''Circuit already connected''), connected_circuit)
   \<and> fst (destroy toy True connected_circuit) = Inr ()
   \<and> state (snd (destroy toy True connected_circuit)) = Destroyed
   \<and> state (run_ops toy [OpCreate 0 [], OpExtend (router_of 4) NTOR [], OpReceive [inbound data_cell 5]]
              (snd (destroy toy True connected_circuit))) = Destroyed
   \<and> state_rank (state connected_circuit)
       \<le> state_rank (state (snd (run_op toy (OpReceive [inbound truncated_cell 0]) connected_circuit)))"
proof -
  have u: "state fresh_circuit = Unknown" by (simp add: fresh_circuit_def)
  have cr: "fst (create toy 0 [Plain created2_cell] fresh_circuit) = Inr ()"
    by (simp add: create_def initialize_def create_onion_skin_def key_agreement_of_def
          get_key_agreement_def complete_handshake_def CircuitNode_init_def created2_cell_def
          Let_def wait_defs recv_defs eval_defs)
  then have cr': "create toy 0 [Plain created2_cell] fresh_circuit
                  = (Inr (), snd (create toy 0 [Plain created2_cell] fresh_circuit))"
    by (simp add: prod_eq_iff)
  have k: "state connected_circuit \<noteq> Unknown" by (simp add: connected_circuit_def)
  have d: "fst (destroy toy True connected_circuit) = Inr ()" by (simp add: eval_defs)
  then have d': "destroy toy True connected_circuit = (Inr (), snd (destroy toy True connected_circuit))"
    by (simp add: prod_eq_iff)
  note t1 = state_moves_forward [of toy "OpCreate 0 []" fresh_circuit "[]" 0 "[Plain created2_cell]" True]
  from t1 cr' have 1: "state (snd (create toy 0 [Plain created2_cell] fresh_circuit)) = Connected"
    by blast
  note t2 = state_moves_forward [of toy "OpReceive [inbound truncated_cell 0]" connected_circuit
      "[]" 0 "[]" True]
  from t2 k have 2: "create toy 0 [] connected_circuit =
       (Inl (AssertionError ''Circuit already connected''), connected_circuit)"
    by blast
  from t2 d' have 3: "state (snd (destroy toy True connected_circuit)) = Destroyed"
    by blast
  have p: "run_op toy (OpReceive [inbound truncated_cell 0]) connected_circuit
           = (fst (run_op toy (OpReceive [inbound truncated_cell 0]) connected_circuit),
              snd (run_op toy (OpReceive [inbound truncated_cell 0]) connected_circuit))"
    by simp
  from t2 p have 4: "state_rank (state connected_circuit)
       \<le> state_rank (state (snd (run_op toy (OpReceive [inbound truncated_cell 0]) connected_circuit)))"
    by blast
  note t3 = state_moves_forward [of toy "OpDestroy True" "snd (destroy toy True connected_circuit)"
      "[OpCreate 0 [], OpExtend (router_of 4) NTOR [], OpReceive [inbound data_cell 5]]" 0 "[]" True]
  from t3 3 have 5: "state (run_ops toy
       [OpCreate 0 [], OpExtend (router_of 4) NTOR [], OpReceive [inbound data_cell 5]]
       (snd (destroy toy True connected_circuit))) = Destroyed"
    by blast
  show ?thesis using u cr 1 k 2 d 3 5 4 by blast
qed

section \<open>Extending the circuit\<close>

lemma key_agreement_of_router:
  "key_agreement_of x n = Inr (ka, n') \<Longrightarrow>
   router n' = router n \<and> crypto_state n' = crypto_state n"
  by (auto simp: key_agreement_of_def split: option.splits sum.splits)

lemma create_onion_skin_router:
  "create_onion_skin x n = Inr (skin, n') \<Longrightarrow> router n' = router n"
  by (auto simp: create_onion_skin_def split: sum.splits dest!: key_agreement_of_router)

lemma complete_handshake_completes:
  "complete_handshake x n hdata = Inr n' \<Longrightarrow> router n' = router n \<and> crypto_state n' \<noteq> None"
  by (auto simp: complete_handshake_def split: sum.splits dest!: key_agreement_of_router)

lemma on_truncated_returns:
  "on_truncated x cl n oc c = (Inr u, c') \<Longrightarrow> state c' = Destroyed"
  by (auto simp: on_truncated_def guard_destroy_circuit_def Let_def
           split: option.splits dest: destroy_sets_Destroyed)

lemma guarded_Cons:
  "guarded w (h # hs) \<longleftrightarrow> h = Callback on_truncated_cb \<or> (h \<noteq> WaiterRef w \<and> guarded w hs)"
  by (auto simp: guarded_def)

lemma guarded_remove1: "guarded w hs \<Longrightarrow> guarded w (remove1 (WaiterRef w') hs)"
  by (induction hs) (auto simp: guarded_Cons)

lemma guarded_append_fresh:
  "Callback on_truncated_cb \<in> set hs \<Longrightarrow> WaiterRef w \<notin> set hs \<Longrightarrow> guarded w (hs @ [WaiterRef w])"
  by (induction hs) (auto simp: guarded_Cons)

lemma frame_seen:
  assumes "cb_frame c c'" and "truncated_seen w c \<longrightarrow> state c = Destroyed"
  shows "truncated_seen w c' \<longrightarrow> state c' = Destroyed"
proof
  assume "truncated_seen w c'"
  then have "truncated_seen w c" using assms(1) by (simp add: truncated_seen_def cb_frame_def)
  then have "state c = Destroyed" using assms(2) by simp
  then show "state c' = Destroyed"
    using assms(1) by (auto simp: cb_frame_def recv_frame_def intro: rank_Destroyed)
qed

lemma handle_loop_stays_Destroyed:
  "handle_loop x cl f oc hs c = (r, c') \<Longrightarrow> state c = Destroyed \<Longrightarrow> state c' = Destroyed"
  using handle_loop_frame [of x cl f oc hs c r c']
  by (auto simp: recv_frame_def intro: rank_Destroyed)

lemma handle_loop_seen:
  "handle_loop x cl f oc hs c = (r, c') \<Longrightarrow>
   (type_of cl = CellRelayTruncated \<longrightarrow> state c = Destroyed \<or> guarded w hs) \<Longrightarrow>
   (truncated_seen w c \<longrightarrow> state c = Destroyed) \<Longrightarrow>
   (truncated_seen w c' \<longrightarrow> state c' = Destroyed)"
proof (induction hs arbitrary: c)
  case Nil
  then show ?case by simp
next
  case (Cons h hs)
  show ?case
  proof (cases "state c = Destroyed")
    case True
    with Cons.prems(1) have "state c' = Destroyed" by (rule handle_loop_stays_Destroyed)
    then show ?thesis by simp
  next
    case nd: False
    show ?thesis
    proof (cases h)
      case (WaiterRef w')
      let ?c1 = "c\<lparr>waiters := (waiters c)(w' := Waiter_handler cl (waiters c w'))\<rparr>"
      let ?cur = "get_handlers (handlers c) (type_of cl)"
      let ?c2 = "?c1\<lparr>handlers := (handlers ?c1)(type_of cl \<mapsto> remove1 (WaiterRef w') ?cur)\<rparr>"
      have g: "type_of cl = CellRelayTruncated \<longrightarrow> w' \<noteq> w \<and> guarded w hs"
        using Cons.prems(2) nd WaiterRef by (auto simp: guarded_Cons)
      have s1: "truncated_seen w ?c1 \<longrightarrow> state ?c1 = Destroyed"
        using Cons.prems(3) g
        by (auto simp: truncated_seen_def Waiter_handler_def split: option.splits)
      show ?thesis
      proof (cases "WaiterRef w' \<in> set ?cur")
        case True
        then have l: "handle_loop x cl f oc hs ?c2 = (r, c')"
          using Cons.prems(1) WaiterRef by (simp add: Let_def)
        have s2: "truncated_seen w ?c2 \<longrightarrow> state ?c2 = Destroyed"
          using s1 by (simp add: truncated_seen_def)
        have g2: "type_of cl = CellRelayTruncated \<longrightarrow> state ?c2 = Destroyed \<or> guarded w hs"
          using g by simp
        from Cons.IH [OF l g2 s2] show ?thesis .
      next
        case False
        then have "c' = ?c1" using Cons.prems(1) WaiterRef by (simp add: Let_def)
        then show ?thesis using s1 by simp
      qed
    next
      case (Callback cb)
      obtain r1 c1 where i: "invoke x cb cl f oc c = (r1, c1)" by (cases "invoke x cb cl f oc c")
      from invoke_frame [OF i] have fr: "cb_frame c c1" .
      have s1: "truncated_seen w c1 \<longrightarrow> state c1 = Destroyed"
        using fr Cons.prems(3) by (rule frame_seen)
      show ?thesis
      proof (cases r1)
        case (Inl e)
        then have "c' = c1" using Cons.prems(1) Callback i by simp
        then show ?thesis using s1 by simp
      next
        case (Inr u)
        then have l: "handle_loop x cl f oc hs c1 = (r, c')"
          using Cons.prems(1) Callback i by simp
        have g1: "type_of cl = CellRelayTruncated \<longrightarrow> state c1 = Destroyed \<or> guarded w hs"
        proof
          assume t: "type_of cl = CellRelayTruncated"
          show "state c1 = Destroyed \<or> guarded w hs"
          proof (cases "cb = on_truncated_cb")
            case True
            then have "state c1 = Destroyed"
              using i Inr by (auto simp: invoke_def split: option.splits dest: on_truncated_returns)
            then show ?thesis by simp
          next
            case False
            then show ?thesis using Cons.prems(2) t nd Callback by (auto simp: guarded_Cons)
          qed
        qed
        from Cons.IH [OF l g1 s1] show ?thesis .
      qed
    qed
  qed
qed

lemma handle_loop_guarded:
  "handle_loop x cl f oc hs c = (r, c') \<Longrightarrow>
   guarded w (get_handlers (handlers c) CellRelayTruncated) \<Longrightarrow>
   guarded w (get_handlers (handlers c') CellRelayTruncated)"
proof (induction hs arbitrary: c)
  case Nil
  then show ?case by simp
next
  case (Cons h hs)
  show ?case
  proof (cases h)
    case (WaiterRef w')
    let ?c1 = "c\<lparr>waiters := (waiters c)(w' := Waiter_handler cl (waiters c w'))\<rparr>"
    let ?cur = "get_handlers (handlers c) (type_of cl)"
    let ?c2 = "?c1\<lparr>handlers := (handlers ?c1)(type_of cl \<mapsto> remove1 (WaiterRef w') ?cur)\<rparr>"
    have g2: "guarded w (get_handlers (handlers ?c2) CellRelayTruncated)"
      using Cons.prems(2) by (auto simp: get_handlers_def intro: guarded_remove1 split: option.splits)
    show ?thesis
    proof (cases "WaiterRef w' \<in> set ?cur")
      case True
      then have l: "handle_loop x cl f oc hs ?c2 = (r, c')"
        using Cons.prems(1) WaiterRef by (simp add: Let_def)
      from Cons.IH [OF l g2] show ?thesis .
    next
      case False
      then have "c' = ?c1" using Cons.prems(1) WaiterRef by (simp add: Let_def)
      then show ?thesis using Cons.prems(2) by simp
    qed
  next
    case (Callback cb)
    obtain r1 c1 where i: "invoke x cb cl f oc c = (r1, c1)" by (cases "invoke x cb cl f oc c")
    from invoke_frame [OF i] have h: "handlers c1 = handlers c" by (simp add: cb_frame_def)
    show ?thesis
    proof (cases r1)
      case (Inl e)
      then have "c' = c1" using Cons.prems(1) Callback i by simp
      then show ?thesis using Cons.prems(2) h by simp
    next
      case (Inr u)
      then have l: "handle_loop x cl f oc hs c1 = (r, c')"
        using Cons.prems(1) Callback i by simp
      from Cons.IH [OF l] Cons.prems(2) h show ?thesis by simp
    qed
  qed
qed

lemma handle_inv:
  assumes "handle x cl f oc c = (r, c')"
    and "guarded w (get_handlers (handlers c) CellRelayTruncated)"
    and "truncated_seen w c \<longrightarrow> state c = Destroyed"
  shows "guarded w (get_handlers (handlers c') CellRelayTruncated)
       \<and> (truncated_seen w c' \<longrightarrow> state c' = Destroyed)"
proof (cases "get_handlers (handlers c) (type_of cl) = []")
  case True
  then have "c' = logmsg Error ''%s was received but no handlers for it'' c"
    using assms(1) by (simp add: handle_def Let_def)
  then show ?thesis using assms(2,3) by (simp add: logmsg_def truncated_seen_def)
next
  case False
  then have l: "handle_loop x cl f oc (get_handlers (handlers c) (type_of cl)) c = (r, c')"
    using assms(1) by (simp add: handle_def Let_def)
  have g: "type_of cl = CellRelayTruncated \<longrightarrow>
             state c = Destroyed \<or> guarded w (get_handlers (handlers c) (type_of cl))"
    using assms(2) by simp
  from handle_loop_guarded [OF l assms(2)] handle_loop_seen [OF l g assms(3)]
  show ?thesis by simp
qed

lemma cb_frame_inv:
  assumes "cb_frame c c'"
    and "guarded w (get_handlers (handlers c) CellRelayTruncated)"
    and "truncated_seen w c \<longrightarrow> state c = Destroyed"
  shows "guarded w (get_handlers (handlers c') CellRelayTruncated)
       \<and> (truncated_seen w c' \<longrightarrow> state c' = Destroyed)"
  using frame_seen [OF assms(1,3)] assms(1,2) by (simp add: cb_frame_def)

lemma handle_relay_inv:
  assumes "handle_relay x rc c = (r, c')"
    and "guarded w (get_handlers (handlers c) CellRelayTruncated)"
    and "truncated_seen w c \<longrightarrow> state c = Destroyed"
  shows "guarded w (get_handlers (handlers c') CellRelayTruncated)
       \<and> (truncated_seen w c' \<longrightarrow> state c' = Destroyed)"
proof -
  obtain r1 c1 where d: "decrypt x rc c = (r1, c1)" by (cases "decrypt x rc c")
  from cb_frame_inv [OF decrypt_frame [OF d] assms(2,3)]
  have i1: "guarded w (get_handlers (handlers c1) CellRelayTruncated)"
    "truncated_seen w c1 \<longrightarrow> state c1 = Destroyed"
    by simp_all
  show ?thesis
  proof (cases r1)
    case (Inl e)
    then have "c' = c1" using assms(1) d by (simp add: handle_relay_def)
    then show ?thesis using i1 by simp
  next
    case (Inr t)
    obtain fn inner rc' where t: "t = (fn, inner, rc')" by (cases t)
    show ?thesis
    proof (cases fn)
      case None
      then have "c' = c1" using assms(1) d Inr t by (simp add: handle_relay_def)
      then show ?thesis using i1 by simp
    next
      case (Some i)
      then have "handle x inner (Some i) (Some rc') c1 = (r, c')"
        using assms(1) d Inr t by (simp add: handle_relay_def)
      from handle_inv [OF this i1] show ?thesis .
    qed
  qed
qed

lemma recv_one_inv:
  assumes "guarded w (get_handlers (handlers c) CellRelayTruncated)"
    and "truncated_seen w c \<longrightarrow> state c = Destroyed"
  shows "guarded w (get_handlers (handlers (recv_one x a c)) CellRelayTruncated)
       \<and> (truncated_seen w (recv_one x a c) \<longrightarrow> state (recv_one x a c) = Destroyed)"
proof -
  let ?h = "case a of Plain cl \<Rightarrow> handle_cell x cl c | Relayed rc \<Rightarrow> handle_relay x rc c"
  obtain r1 c1 where h: "?h = (r1, c1)" by (cases ?h)
  have i1: "guarded w (get_handlers (handlers c1) CellRelayTruncated)
       \<and> (truncated_seen w c1 \<longrightarrow> state c1 = Destroyed)"
  proof (cases a)
    case (Plain cl)
    then have "handle x cl None None c = (r1, c1)" using h by (simp add: handle_cell_def)
    from handle_inv [OF this assms] show ?thesis .
  next
    case (Relayed rc)
    then have "handle_relay x rc c = (r1, c1)" using h by simp
    from handle_relay_inv [OF this assms] show ?thesis .
  qed
  have "recv_one x a c = (case r1 of Inl e \<Rightarrow> logmsg Error ''Some handle errors'' c1 | Inr u \<Rightarrow> c1)"
    using h by (simp add: recv_one_def split: sum.splits)
  then show ?thesis using i1 by (cases r1) (simp_all add: logmsg_def truncated_seen_def)
qed

lemma do_recv_inv:
  "guarded w (get_handlers (handlers c) CellRelayTruncated) \<Longrightarrow>
   (truncated_seen w c \<longrightarrow> state c = Destroyed) \<Longrightarrow>
   guarded w (get_handlers (handlers (do_recv x as c)) CellRelayTruncated)
   \<and> (truncated_seen w (do_recv x as c) \<longrightarrow> state (do_recv x as c) = Destroyed)"
proof (induction as arbitrary: c)
  case Nil
  then show ?case by simp
next
  case (Cons a as)
  from recv_one_inv [OF Cons.prems, of x a]
  have "guarded w (get_handlers (handlers (recv_one x a c)) CellRelayTruncated)"
    "truncated_seen w (recv_one x a c) \<longrightarrow> state (recv_one x a c) = Destroyed"
    by simp_all
  from Cons.IH [OF this] show ?case by simp
qed

lemma Waiter_get_returns: "Waiter_get wt = Inr (Some cl) \<Longrightarrow> read_cell wt = Some cl"
  by (auto simp: Waiter_get_def split: if_splits option.splits)

lemma refused_wait_destroyed:
  fixes c :: "('ka, 'k) TorCircuit"
  assumes "send_relay_wait x inner (Many [CellRelayExtended2, CellRelayTruncated]) rt sid arrivals c
           = (Inr (Some recv), c1)"
    and "type_of recv = CellRelayTruncated"
    and "Callback on_truncated_cb \<in> set (get_handlers (handlers c) CellRelayTruncated)"
    and "WaiterRef (next_waiter c) \<notin> set (get_handlers (handlers c) CellRelayTruncated)"
  shows "state c1 = Destroyed"
proof -
  let ?w = "next_waiter c"
  let ?ts = "Many [CellRelayExtended2, CellRelayTruncated]"
  let ?c0 = "c\<lparr>waiters := (waiters c)(?w := Waiter_init ?ts), next_waiter := Suc ?w,
               handlers := subscribe_for ?ts (WaiterRef ?w) (handlers c)\<rparr>"
  have e: "create_waiter_enter ?ts c = (?w, ?c0)"
    by (simp add: create_waiter_enter_def Let_def)
  have "get_handlers (handlers ?c0) CellRelayTruncated
          = get_handlers (handlers c) CellRelayTruncated @ [WaiterRef ?w]"
    by (simp add: subscribe_for_cell_def get_handlers_def)
  then have g0: "guarded ?w (get_handlers (handlers ?c0) CellRelayTruncated)"
    using assms(3,4) by (simp add: guarded_append_fresh)
  have s0: "truncated_seen ?w ?c0 \<longrightarrow> state ?c0 = Destroyed"
    by (simp add: truncated_seen_def Waiter_init_def)
  obtain r2 c2 where s: "send_relay x inner rt sid ?c0 = (r2, c2)"
    by (cases "send_relay x inner rt sid ?c0")
  from assms(1) e s obtain u where r2: "r2 = Inr u"
    by (cases r2) (auto simp: send_relay_wait_def create_waiter_def)
  let ?c3 = "do_recv x arrivals c2"
  from assms(1) e s r2 have g: "Waiter_get (waiters ?c3 ?w) = Inr (Some recv)"
    and c1: "c1 = ?c3\<lparr>handlers := unsubscribe_for ?ts (WaiterRef ?w) (handlers ?c3)\<rparr>"
    by (auto simp: send_relay_wait_def create_waiter_def Let_def split: sum.splits)
  from send_relay_frame [OF s] have "cb_frame ?c0 c2" by simp
  from cb_frame_inv [OF this g0 s0]
  have i2: "guarded ?w (get_handlers (handlers c2) CellRelayTruncated)"
    "truncated_seen ?w c2 \<longrightarrow> state c2 = Destroyed"
    by simp_all
  from do_recv_inv [OF i2, of x arrivals]
  have i3: "truncated_seen ?w ?c3 \<longrightarrow> state ?c3 = Destroyed" by simp
  have "read_cell (waiters ?c3 ?w) = Some recv" using g by (rule Waiter_get_returns)
  then have "truncated_seen ?w ?c3" using assms(2) by (simp add: truncated_seen_def)
  with i3 have "state ?c3 = Destroyed" by simp
  then show ?thesis using c1 by simp
qed

lemma create_subscribes_on_truncated:
  "create x g arrivals c = (Inr u, c') \<Longrightarrow>
   Callback on_truncated_cb \<in> set (get_handlers (handlers c') CellRelayTruncated)"
  by (auto simp: create_def subscribe_for_cell_def get_handlers_def
           split: if_splits prod.splits sum.splits option.splits)

text \<open>
  Claim C4, as the code has it. On a Connected circuit, when the wait of \<^verbatim>\<open>extend\<close>
  returns a \<^verbatim>\<open>RELAY_TRUNCATED\<close>, \<^verbatim>\<open>extend\<close> raises \<^verbatim>\<open>CircuitExtendError\<close> with the
  reason and the circuit keeps the routers it had: no node is appended. The state does
  not stay Connected. Where \<^verbatim>\<open>_on_truncated\<close> is subscribed for \<^verbatim>\<open>CellRelayTruncated\<close>,
  as \<^verbatim>\<open>create\<close> leaves the registry, and the waiter of this \<^verbatim>\<open>extend\<close> is a new
  object, the waiter comes after that handler in the list; the cell it holds has been
  through \<^verbatim>\<open>_on_truncated\<close> first, which had the guard tear the circuit down, so the
  circuit is Destroyed when \<^verbatim>\<open>extend\<close> raises. When the wait returns a
  \<^verbatim>\<open>RELAY_EXTENDED2\<close> and the handshake completes, the new node, with its crypto state,
  is appended.
\<close>

theorem extend_replies:
  fixes c :: "('ka, 'k) TorCircuit"
  assumes "state c = Connected" and "circuit_nodes c = Some ns"
    and "create_onion_skin x (CircuitNode_init r ht) = Inr (skin, extend_node)"
    and "send_relay_wait x
           (Cell CellRelayExtend2 0 (Extend2Attrs (ip r) (tor_port r) (fingerprint r) skin))
           (Many [CellRelayExtended2, CellRelayTruncated]) (Some CellRelayEarly) 0 arrivals c
         = (Inr (Some recv), c1)"
  shows "(\<forall>rs. type_of recv = CellRelayTruncated \<and> reason recv = Some rs \<longrightarrow>
            extend x r ht arrivals c = (Inl (CircuitExtendError (''Extend error '' @ rs)), c1)
          \<and> map_option (map router) (circuit_nodes c1) = Some (map router ns)
          \<and> state_rank Connected \<le> state_rank (state c1))
       \<and> (type_of recv = CellRelayTruncated
            \<and> Callback on_truncated_cb \<in> set (get_handlers (handlers c) CellRelayTruncated)
            \<and> WaiterRef (next_waiter c) \<notin> set (get_handlers (handlers c) CellRelayTruncated)
          \<longrightarrow> state c1 = Destroyed \<and> state (snd (extend x r ht arrivals c)) = Destroyed)
       \<and> (\<forall>hdata n. type_of recv \<noteq> CellRelayTruncated \<and> handshake_data recv = Some hdata
                     \<and> complete_handshake x extend_node hdata = Inr n \<longrightarrow>
            (\<exists>ns1. circuit_nodes c1 = Some ns1 \<and> map router ns1 = map router ns
                  \<and> extend x r ht arrivals c = (Inr (), c1\<lparr>circuit_nodes := Some (ns1 @ [n])\<rparr>)
                  \<and> router n = r \<and> crypto_state n \<noteq> None))"
proof (intro conjI allI impI)
  from send_relay_wait_frame [OF assms(4)] assms(1,2)
  have fr: "map_option (map router) (circuit_nodes c1) = Some (map router ns)"
    "state_rank Connected \<le> state_rank (state c1)"
    by (simp_all add: recv_frame_def)
  {
    fix rs assume "type_of recv = CellRelayTruncated \<and> reason recv = Some rs"
    then show "extend x r ht arrivals c = (Inl (CircuitExtendError (''Extend error '' @ rs)), c1)"
      using assms by (simp add: extend_def)
    show "map_option (map router) (circuit_nodes c1) = Some (map router ns)" by (rule fr(1))
    show "state_rank Connected \<le> state_rank (state c1)" by (rule fr(2))
  next
    assume a: "type_of recv = CellRelayTruncated
            \<and> Callback on_truncated_cb \<in> set (get_handlers (handlers c) CellRelayTruncated)
            \<and> WaiterRef (next_waiter c) \<notin> set (get_handlers (handlers c) CellRelayTruncated)"
    then have t: "type_of recv = CellRelayTruncated"
      and h1: "Callback on_truncated_cb \<in> set (get_handlers (handlers c) CellRelayTruncated)"
      and h2: "WaiterRef (next_waiter c) \<notin> set (get_handlers (handlers c) CellRelayTruncated)"
      by simp_all
    from refused_wait_destroyed [OF assms(4) t h1 h2] show d: "state c1 = Destroyed" .
    have "snd (extend x r ht arrivals c) = c1"
      using assms t by (simp add: extend_def split: option.splits)
    then show "state (snd (extend x r ht arrivals c)) = Destroyed" using d by simp
  next
    fix hdata n
    assume a: "type_of recv \<noteq> CellRelayTruncated \<and> handshake_data recv = Some hdata
               \<and> complete_handshake x extend_node hdata = Inr n"
    from fr(1) obtain ns1 where n1: "circuit_nodes c1 = Some ns1" "map router ns1 = map router ns"
      by (cases "circuit_nodes c1") auto
    have e: "extend x r ht arrivals c = (Inr (), c1\<lparr>circuit_nodes := Some (ns1 @ [n])\<rparr>)"
      using assms a n1(1) by (simp add: extend_def)
    have "router extend_node = r"
      using create_onion_skin_router [OF assms(3)] by (simp add: CircuitNode_init_def)
    then have "router n = r \<and> crypto_state n \<noteq> None"
      using complete_handshake_completes [of x extend_node hdata n] a by simp
    with n1 e show "\<exists>ns1. circuit_nodes c1 = Some ns1 \<and> map router ns1 = map router ns
                  \<and> extend x r ht arrivals c = (Inr (), c1\<lparr>circuit_nodes := Some (ns1 @ [n])\<rparr>)
                  \<and> router n = r \<and> crypto_state n \<noteq> None"
      by blast
  }
qed

lemmas extend_eval =
  extend_def create_onion_skin_def key_agreement_of_def get_key_agreement_def
  complete_handshake_def CircuitNode_init_def inbound_def truncated_cell_def extended2_cell_def
  extend2_cell_def node4_def orig3_def Let_def

theorem extend_replies_witness:
  "state connected_circuit = Connected
   \<and> circuit_nodes connected_circuit = Some [node_of 1, node_of 2, node_of 3]
   \<and> create_onion_skin toy (CircuitNode_init (router_of 4) NTOR) = Inr ([4], node4)
   \<and> fst (send_relay_wait toy extend2_cell (Many [CellRelayExtended2, CellRelayTruncated])
             (Some CellRelayEarly) 0 [inbound truncated_cell 0] connected_circuit)
       = Inr (Some truncated_cell)
   \<and> type_of truncated_cell = CellRelayTruncated
   \<and> reason truncated_cell = Some ''RESOURCELIMIT''
   \<and> fst (extend toy (router_of 4) NTOR [inbound truncated_cell 0] connected_circuit)
       = Inl (CircuitExtendError ''Extend error RESOURCELIMIT'')
   \<and> map_option (map router)
        (circuit_nodes (snd (extend toy (router_of 4) NTOR [inbound truncated_cell 0] connected_circuit)))
       = Some [router_of 1, router_of 2, router_of 3]
   \<and> fst (send_relay_wait toy extend2_cell (Many [CellRelayExtended2, CellRelayTruncated])
             (Some CellRelayEarly) 0 [inbound extended2_cell 0] connected_circuit)
       = Inr (Some extended2_cell)
   \<and> type_of extended2_cell \<noteq> CellRelayTruncated
   \<and> handshake_data extended2_cell = Some [9]
   \<and> complete_handshake toy node4 [9] = Inr (node4\<lparr>crypto_state := Some 9\<rparr>)
   \<and> fst (extend toy (router_of 4) NTOR [inbound extended2_cell 0] connected_circuit) = Inr ()
   \<and> map_option (map router)
        (circuit_nodes (snd (extend toy (router_of 4) NTOR [inbound extended2_cell 0] connected_circuit)))
       = Some [router_of 1, router_of 2, router_of 3, router_of 4]
   \<and> Callback on_truncated_cb
        \<in> set (get_handlers (handlers connected_circuit) CellRelayTruncated)
   \<and> WaiterRef (next_waiter connected_circuit)
        \<notin> set (get_handlers (handlers connected_circuit) CellRelayTruncated)
   \<and> state (snd (extend toy (router_of 4) NTOR [inbound truncated_cell 0] connected_circuit))
       = Destroyed"
proof -
  let ?ns = "[node_of 1, node_of 2, node_of 3]"
  let ?wt = "send_relay_wait toy extend2_cell (Many [CellRelayExtended2, CellRelayTruncated])
             (Some CellRelayEarly) 0 [inbound truncated_cell 0] connected_circuit"
  let ?we = "send_relay_wait toy extend2_cell (Many [CellRelayExtended2, CellRelayTruncated])
             (Some CellRelayEarly) 0 [inbound extended2_cell 0] connected_circuit"
  have st: "state connected_circuit = Connected" by (simp add: connected_circuit_def)
  have n: "circuit_nodes connected_circuit = Some ?ns" by (simp add: connected_circuit_def)
  have sk: "create_onion_skin toy (CircuitNode_init (router_of 4) NTOR) = Inr ([4], node4)"
    by (simp add: extend_eval toy_def router_of_def)
  have rq: "Cell CellRelayExtend2 0
              (Extend2Attrs (ip (router_of 4)) (tor_port (router_of 4)) (fingerprint (router_of 4)) [4])
            = extend2_cell"
    by (simp add: extend2_cell_def)
  have wt: "fst ?wt = Inr (Some truncated_cell)"
    by (simp add: extend_eval wait_defs recv_defs eval_defs)
  then have wt': "?wt = (Inr (Some truncated_cell), snd ?wt)" by (simp add: prod_eq_iff)
  have we: "fst ?we = Inr (Some extended2_cell)"
    by (simp add: extend_eval wait_defs recv_defs eval_defs)
  then have we': "?we = (Inr (Some extended2_cell), snd ?we)" by (simp add: prod_eq_iff)
  have tt: "type_of truncated_cell = CellRelayTruncated"
    and tr: "reason truncated_cell = Some ''RESOURCELIMIT''"
    by (simp_all add: truncated_cell_def reason_def)
  have et: "type_of extended2_cell \<noteq> CellRelayTruncated"
    and eh: "handshake_data extended2_cell = Some [9]"
    by (simp_all add: extended2_cell_def handshake_data_def)
  have ch: "complete_handshake toy node4 [9] = Inr (node4\<lparr>crypto_state := Some 9\<rparr>)"
    by (simp add: extend_eval toy_def)
  have hm: "Callback on_truncated_cb
        \<in> set (get_handlers (handlers connected_circuit) CellRelayTruncated)"
    by (simp add: recv_defs eval_defs)
  have hw: "WaiterRef (next_waiter connected_circuit)
        \<notin> set (get_handlers (handlers connected_circuit) CellRelayTruncated)"
    by (simp add: recv_defs eval_defs)
  have rs: "map router ?ns = [router_of 1, router_of 2, router_of 3]"
    by (simp add: node_of_def)
  note t = extend_replies [OF st n sk, unfolded rq, OF wt']
  from t tt tr have 1: "extend toy (router_of 4) NTOR [inbound truncated_cell 0] connected_circuit
        = (Inl (CircuitExtendError (''Extend error '' @ ''RESOURCELIMIT'')), snd ?wt)"
    and 2: "map_option (map router) (circuit_nodes (snd ?wt)) = Some (map router ?ns)"
    by blast+
  from t tt hm hw have 3: "state (snd (extend toy (router_of 4) NTOR [inbound truncated_cell 0]
      connected_circuit)) = Destroyed"
    by blast
  note t' = extend_replies [OF st n sk, unfolded rq, OF we']
  from t' et eh ch obtain ns1 where
    4: "circuit_nodes (snd ?we) = Some ns1" "map router ns1 = map router ?ns"
       "extend toy (router_of 4) NTOR [inbound extended2_cell 0] connected_circuit
        = (Inr (), (snd ?we)\<lparr>circuit_nodes := Some (ns1 @ [node4\<lparr>crypto_state := Some 9\<rparr>])\<rparr>)"
    by blast
  have 5: "fst (extend toy (router_of 4) NTOR [inbound truncated_cell 0] connected_circuit)
       = Inl (CircuitExtendError ''Extend error RESOURCELIMIT'')"
    using 1 by simp
  have 6: "map_option (map router)
        (circuit_nodes (snd (extend toy (router_of 4) NTOR [inbound truncated_cell 0] connected_circuit)))
       = Some [router_of 1, router_of 2, router_of 3]"
    using 1 2 rs by simp
  have 7: "fst (extend toy (router_of 4) NTOR [inbound extended2_cell 0] connected_circuit) = Inr ()"
    using 4(3) by simp
  have 8: "map_option (map router)
        (circuit_nodes (snd (extend toy (router_of 4) NTOR [inbound extended2_cell 0] connected_circuit)))
       = Some [router_of 1, router_of 2, router_of 3, router_of 4]"
    using 4 rs by (simp add: node4_def CircuitNode_init_def)
  show ?thesis
    using st n sk wt tt tr 5 6 we et eh ch 7 8 hm hw 3 by (intro conjI)
qed

text \<open>
  The circuit with three hops, extended towards a fourth that refuses: the
  \<^verbatim>\<open>RELAY_TRUNCATED\<close> is dispatched first to \<^verbatim>\<open>on_truncated\<close>, which tears the circuit
  down, then to the waiter; \<^verbatim>\<open>extend\<close> raises and the circuit is Destroyed.
\<close>

theorem refused_extend_destroys:
  "state connected_circuit = Connected
   \<and> fst (extend toy (router_of 4) NTOR [inbound truncated_cell 0] connected_circuit)
       = Inl (CircuitExtendError ''Extend error RESOURCELIMIT'')
   \<and> state (snd (extend toy (router_of 4) NTOR [inbound truncated_cell 0] connected_circuit))
       = Destroyed"
  by (simp add: extend_def create_onion_skin_def key_agreement_of_def get_key_agreement_def
        CircuitNode_init_def inbound_def truncated_cell_def Let_def
        wait_defs recv_defs eval_defs)

end
